theory Spec2Isabelle
  imports Main "HOL-Library.Word"
begin

section \<open>JavaScript values held by the vault\<close>

text \<open>
  A JavaScript string is a sequence of 16-bit code units. \<open>js\<close> writes one from a literal
  of 8-bit characters. The session-cache keys, the base64 text of a ciphertext and the
  "binary strings" of the base64 helpers only hold code units below 256 and are kept as
  8-bit strings.
\<close>

type_synonym byte = "8 word"

type_synonym jstring = "16 word list"

definition js :: "string \<Rightarrow> jstring" where
  "js s = map (\<lambda>c. of_nat (of_char c)) s"

text \<open>
  The fields \<open>body\<close>, \<open>notes\<close> and \<open>passwordCheck\<close> of the program hold either a string,
  a ciphertext object \<open>{ct, iv, salt}\<close>, \<open>null\<close> (what \<open>decrypt\<close> returns on failure, and
  what the move and unlock paths store) or \<open>undefined\<close> (a field that was never set, or was
  removed by \<open>delete\<close>).
\<close>

record ciphertext =
  ct :: string
  iv :: string
  salt :: string

datatype jsval = JNull | JUndefined | JStr jstring | JObj ciphertext

datatype error = TypeError

text \<open>\<open>!v\<close> is \<open>\<not> truthy v\<close>: \<open>null\<close>, \<open>undefined\<close> and the empty string are falsy.\<close>

fun truthy :: "jsval \<Rightarrow> bool" where
  "truthy JNull = False"
| "truthy JUndefined = False"
| "truthy (JStr s) = (s \<noteq> [])"
| "truthy (JObj c) = True"

text \<open>The string conversion applied to the argument of \<open>TextEncoder.encode\<close>.\<close>

fun ToString :: "jsval \<Rightarrow> jstring" where
  "ToString (JStr s) = s"
| "ToString (JObj c) = js ''[object Object]''"
| "ToString JNull = js ''null''"
| "ToString JUndefined = js ''undefined''"

text \<open>\<open>String(id)\<close> of a non-negative integer id: its decimal digits.\<close>

definition digit_char :: "nat \<Rightarrow> char" where
  "digit_char d = ''0123456789'' ! d"

function String_of :: "nat \<Rightarrow> string" where
  "String_of n = (if n < 10 then [digit_char n] else String_of (n div 10) @ [digit_char (n mod 10)])"
  by pat_completeness auto
termination
  by (relation "measure id") auto

declare String_of.simps [simp del]

subsection \<open>Strings that survive UTF-8\<close>

text \<open>
  \<open>TextEncoder\<close> replaces a surrogate code unit that has no partner by U+FFFD, and
  \<open>TextDecoder\<close> drops a leading U+FEFF. A string is \<open>well_formed\<close> when neither can
  happen to it: its surrogates come in pairs and it does not start with U+FEFF.
\<close>

definition is_high :: "16 word \<Rightarrow> bool" where
  "is_high u \<longleftrightarrow> 0xD800 \<le> u \<and> u \<le> 0xDBFF"

definition is_low :: "16 word \<Rightarrow> bool" where
  "is_low u \<longleftrightarrow> 0xDC00 \<le> u \<and> u \<le> 0xDFFF"

fun paired :: "jstring \<Rightarrow> bool" where
  "paired [] = True"
| "paired [u] = (\<not> is_high u \<and> \<not> is_low u)"
| "paired (u # v # us) =
     (if is_high u then is_low v \<and> paired us else \<not> is_low u \<and> paired (v # us))"

definition well_formed :: "jstring \<Rightarrow> bool" where
  "well_formed s \<longleftrightarrow> paired s \<and> (case s of [] \<Rightarrow> True | u # us \<Rightarrow> u \<noteq> 0xFEFF)"

section \<open>The platform under CryptoService\<close>

text \<open>
  \<open>CryptoService\<close> calls the browser for random bytes, PBKDF2 key derivation, AES-GCM,
  UTF-8 encoding and base64. None of that is code of the program, so it is a parameter
  of the model: a record of functions, in which a call that can throw returns an option.
  \<open>getRandomValues W i n\<close> is the result of the \<open>i\<close>-th draw of \<open>n\<close> random bytes; the
  functions that encrypt thread the number of draws made so far. \<open>timer_fires W k\<close> says
  whether a timer that is pending fires while the \<open>k\<close>-th operation that takes real time
  (a call of the cryptography or of the database) is under way.
\<close>

record 'k platform =
  getRandomValues :: "nat \<Rightarrow> nat \<Rightarrow> byte list"
  pbkdf2 :: "byte list \<Rightarrow> byte list \<Rightarrow> 'k"
  aes_gcm_encrypt :: "'k \<Rightarrow> byte list \<Rightarrow> byte list \<Rightarrow> byte list option"
  aes_gcm_decrypt :: "'k \<Rightarrow> byte list \<Rightarrow> byte list \<Rightarrow> byte list option"
  text_encode :: "jstring \<Rightarrow> byte list"
  text_decode :: "byte list \<Rightarrow> jstring"
  btoa :: "string \<Rightarrow> string"
  atob :: "string \<Rightarrow> string option"
  timer_fires :: "nat \<Rightarrow> bool"

section \<open>CryptoService\<close>

definition charCodeAt :: "char \<Rightarrow> byte" where
  "charCodeAt c = of_nat (of_char c)"

definition fromCharCode :: "byte \<Rightarrow> char" where
  "fromCharCode b = char_of (unat b)"

definition base64ToArrayBuffer :: "'k platform \<Rightarrow> string \<Rightarrow> byte list option" where
  "base64ToArrayBuffer W base64 =
     (case atob W base64 of
        None \<Rightarrow> None
      | Some binary_string \<Rightarrow> Some (map charCodeAt binary_string))"

definition arrayBufferToBase64 :: "'k platform \<Rightarrow> byte list \<Rightarrow> string" where
  "arrayBufferToBase64 W buffer = btoa W (map fromCharCode buffer)"

definition deriveKey :: "'k platform \<Rightarrow> jstring \<Rightarrow> byte list \<Rightarrow> 'k" where
  "deriveKey W password salt_bytes = pbkdf2 W (text_encode W password) salt_bytes"

text \<open>
  \<open>encrypt W n text password\<close> returns the value and the number of random draws made so
  far. A failure of the primitive is caught and the text is returned as it is.
\<close>

definition encrypt :: "'k platform \<Rightarrow> nat \<Rightarrow> jsval \<Rightarrow> jstring \<Rightarrow> jsval \<times> nat" where
  "encrypt W n text password =
     (if \<not> truthy text \<or> password = [] then (text, n)
      else
        let salt_bytes = getRandomValues W n 16;
            iv_bytes = getRandomValues W (Suc n) 12;
            key = deriveKey W password salt_bytes
        in case aes_gcm_encrypt W key iv_bytes (text_encode W (ToString text)) of
             None \<Rightarrow> (text, n + 2)
           | Some encryptedContent \<Rightarrow>
               (JObj \<lparr>ct = arrayBufferToBase64 W encryptedContent,
                      iv = arrayBufferToBase64 W iv_bytes,
                      salt = arrayBufferToBase64 W salt_bytes\<rparr>, n + 2))"

text \<open>
  \<open>decrypt\<close>: the guard reads \<open>encryptedData.ct\<close> before the \<open>try\<close>, so \<open>null\<close> (whose
  \<open>typeof\<close> is \<open>"object"\<close>) throws a TypeError; everything after the guard is caught and
  gives \<open>null\<close>.
\<close>

definition decrypt :: "'k platform \<Rightarrow> jsval \<Rightarrow> jstring \<Rightarrow> error + jsval" where
  "decrypt W encryptedData password =
     (case encryptedData of
        JNull \<Rightarrow> Inl TypeError
      | JObj c \<Rightarrow>
          if ct c = [] \<or> password = [] then Inr encryptedData
          else
            (case base64ToArrayBuffer W (salt c) of
               None \<Rightarrow> Inr JNull
             | Some salt_bytes \<Rightarrow>
                 (case base64ToArrayBuffer W (iv c) of
                    None \<Rightarrow> Inr JNull
                  | Some iv_bytes \<Rightarrow>
                      (case base64ToArrayBuffer W (ct c) of
                         None \<Rightarrow> Inr JNull
                       | Some ct_bytes \<Rightarrow>
                           (case aes_gcm_decrypt W (deriveKey W password salt_bytes) iv_bytes ct_bytes of
                              None \<Rightarrow> Inr JNull
                            | Some decryptedContent \<Rightarrow> Inr (JStr (text_decode W decryptedContent))))))
      | JUndefined \<Rightarrow> Inr encryptedData
      | JStr s \<Rightarrow> Inr encryptedData)"

text \<open>
  Whether a call takes real time, so that a pending timer can fire before it returns:
  \<open>encrypt\<close> when it passes its guard, \<open>decrypt\<close> when it passes its guard and the salt and
  the iv are base64 (a malformed one throws before the first \<open>await\<close>).
\<close>

definition encrypt_takes_time :: "jsval \<Rightarrow> jstring \<Rightarrow> bool" where
  "encrypt_takes_time text password \<longleftrightarrow> truthy text \<and> password \<noteq> []"

definition decrypt_takes_time :: "'k platform \<Rightarrow> jsval \<Rightarrow> jstring \<Rightarrow> bool" where
  "decrypt_takes_time W encryptedData password =
     (case encryptedData of
        JObj c \<Rightarrow> ct c \<noteq> [] \<and> password \<noteq> []
                  \<and> base64ToArrayBuffer W (salt c) \<noteq> None \<and> base64ToArrayBuffer W (iv c) \<noteq> None
      | JNull \<Rightarrow> False
      | JUndefined \<Rightarrow> False
      | JStr s \<Rightarrow> False)"

subsection \<open>What the model asks of the platform\<close>

text \<open>
  Base64 and AES-GCM undo themselves, and a ciphertext is never empty (it carries the
  tag).
\<close>

definition carrier_roundtrip :: "'k platform \<Rightarrow> bool" where
  "carrier_roundtrip W \<longleftrightarrow>
     (\<forall>x. atob W (btoa W x) = Some x) \<and>
     (\<forall>x. btoa W x = [] \<longrightarrow> x = []) \<and>
     (\<forall>k v m c. aes_gcm_encrypt W k v m = Some c \<longrightarrow> c \<noteq> [] \<and> aes_gcm_decrypt W k v c = Some m)"

text \<open>Moreover UTF-8 gives back a well-formed string.\<close>

definition platform_roundtrip :: "'k platform \<Rightarrow> bool" where
  "platform_roundtrip W \<longleftrightarrow>
     carrier_roundtrip W \<and> (\<forall>s. well_formed s \<longrightarrow> text_decode W (text_encode W s) = s)"

definition encrypt_succeeds :: "'k platform \<Rightarrow> bool" where
  "encrypt_succeeds W \<longleftrightarrow> (\<forall>k v m. aes_gcm_encrypt W k v m \<noteq> None)"

subsection \<open>A small platform on which the model runs\<close>

text \<open>
  The key is the password bytes followed by the salt; a ciphertext is the key's length in
  unary, a zero byte, the key and the plaintext, so that decryption under another key
  fails. Text is encoded with two bytes for each code unit, base64 is the identity, and a
  pending timer fires during every operation that takes time. It stands in for the
  browser where a theorem is run on concrete data.
\<close>

fun strip_prefix :: "byte list \<Rightarrow> byte list \<Rightarrow> byte list option" where
  "strip_prefix [] c = Some c"
| "strip_prefix (k # ks) [] = None"
| "strip_prefix (k # ks) (x # xs) = (if k = x then strip_prefix ks xs else None)"

definition toy_tag :: "byte list \<Rightarrow> byte list" where
  "toy_tag k = replicate (length k) 1 @ 0 # k"

fun toy_encode :: "jstring \<Rightarrow> byte list" where
  "toy_encode [] = []"
| "toy_encode (u # us) = of_nat (unat u div 256) # of_nat (unat u mod 256) # toy_encode us"

fun toy_decode :: "byte list \<Rightarrow> jstring" where
  "toy_decode (h # l # bs) = of_nat (unat h * 256 + unat l) # toy_decode bs"
| "toy_decode bs = []"

definition toy :: "(byte list) platform" where
  "toy = \<lparr>getRandomValues = (\<lambda>i n. replicate n (of_nat i)),
          pbkdf2 = (\<lambda>pw s. pw @ s),
          aes_gcm_encrypt = (\<lambda>k v m. Some (toy_tag k @ m)),
          aes_gcm_decrypt = (\<lambda>k v c. strip_prefix (toy_tag k) c),
          text_encode = toy_encode,
          text_decode = toy_decode,
          btoa = (\<lambda>x. x),
          atob = Some,
          timer_fires = (\<lambda>k. True)\<rparr>"

text \<open>The small platform with an AES-GCM encryption that always fails.\<close>

definition toy_failing :: "(byte list) platform" where
  "toy_failing = toy\<lparr>aes_gcm_encrypt := (\<lambda>k v m. None)\<rparr>"


subsection \<open>The browser's text encoder and decoder\<close>

text \<open>
  \<open>TextEncoder.encode\<close> and \<open>TextDecoder.decode\<close> for UTF-8, as the Encoding standard
  defines them. The encoder takes the scalar values of the string, a surrogate without
  partner counting as U+FFFD. The decoder keeps the code point under construction, the
  number of bytes it still needs and the bounds of the next byte; a byte out of bounds
  gives U+FFFD and is read again as a first byte. With the default \<open>ignoreBOM\<close> a leading
  U+FEFF is removed.
\<close>

definition encode_scalar :: "nat \<Rightarrow> nat list" where
  "encode_scalar c =
     (if c < 0x80 then [c]
      else if c < 0x800 then [0xC0 + c div 64, 0x80 + c mod 64]
      else if c < 0x10000 then [0xE0 + c div 4096, 0x80 + (c div 64) mod 64, 0x80 + c mod 64]
      else [0xF0 + c div 262144, 0x80 + (c div 4096) mod 64, 0x80 + (c div 64) mod 64,
            0x80 + c mod 64])"

fun scalars :: "jstring \<Rightarrow> nat list" where
  "scalars [] = []"
| "scalars [u] = [if is_high u \<or> is_low u then 0xFFFD else unat u]"
| "scalars (u # v # us) =
     (if is_high u \<and> is_low v
      then (0x10000 + (unat u - 0xD800) * 1024 + (unat v - 0xDC00)) # scalars us
      else (if is_high u \<or> is_low u then 0xFFFD else unat u) # scalars (v # us))"

definition utf8_encode :: "jstring \<Rightarrow> byte list" where
  "utf8_encode s = map of_nat (concat (map encode_scalar (scalars s)))"

function utf8_points :: "nat \<Rightarrow> nat \<Rightarrow> nat \<Rightarrow> nat \<Rightarrow> nat list \<Rightarrow> nat list" where
  "utf8_points cp needed lower upper [] = (if needed = 0 then [] else [0xFFFD])"
| "utf8_points cp needed lower upper (b # bs) =
     (if needed = 0 then
        (if b < 0x80 then b # utf8_points 0 0 0x80 0xBF bs
         else if 0xC2 \<le> b \<and> b \<le> 0xDF then utf8_points (b mod 32) 1 0x80 0xBF bs
         else if 0xE0 \<le> b \<and> b \<le> 0xEF then
           utf8_points (b mod 16) 2 (if b = 0xE0 then 0xA0 else 0x80)
             (if b = 0xED then 0x9F else 0xBF) bs
         else if 0xF0 \<le> b \<and> b \<le> 0xF4 then
           utf8_points (b mod 8) 3 (if b = 0xF0 then 0x90 else 0x80)
             (if b = 0xF4 then 0x8F else 0xBF) bs
         else 0xFFFD # utf8_points 0 0 0x80 0xBF bs)
      else if b < lower \<or> upper < b then 0xFFFD # utf8_points 0 0 0x80 0xBF (b # bs)
      else if needed = 1 then (cp * 64 + b mod 64) # utf8_points 0 0 0x80 0xBF bs
      else utf8_points (cp * 64 + b mod 64) (needed - 1) 0x80 0xBF bs)"
  by pat_completeness auto
termination
  by (relation "measure (\<lambda>(cp, needed, lower, upper, bs).
        2 * length bs + (if needed = 0 then 0 else 1))") auto

text \<open>The Unicode scalar values: the code points outside the surrogate range.\<close>

definition scalar_value :: "nat \<Rightarrow> bool" where
  "scalar_value c \<longleftrightarrow> c < 0xD800 \<or> (0xE000 \<le> c \<and> c < 0x110000)"

definition code_units :: "nat \<Rightarrow> jstring" where
  "code_units c =
     (if c < 0x10000 then [of_nat c]
      else [of_nat (0xD800 + (c - 0x10000) div 1024), of_nat (0xDC00 + (c - 0x10000) mod 1024)])"

definition utf8_decode :: "byte list \<Rightarrow> jstring" where
  "utf8_decode bs =
     (case concat (map code_units (utf8_points 0 0 0x80 0xBF (map unat bs))) of
        [] \<Rightarrow> []
      | u # us \<Rightarrow> if u = 0xFEFF then us else u # us)"

text \<open>The small platform with the browser's text encoder and decoder.\<close>

definition web :: "(byte list) platform" where
  "web = toy\<lparr>text_encode := utf8_encode, text_decode := utf8_decode\<rparr>"

section \<open>Folders, prompts and the application state\<close>

record folder =
  folder_id :: nat
  name :: jstring
  folder_isLocked :: bool
  folder_passwordCheck :: jsval

record prompt =
  prompt_id :: nat
  title :: jstring
  body :: jsval
  prompt_notes :: jsval
  folderId :: "nat option"
  tags :: "jstring list"
  isFavorite :: bool
  prompt_isLocked :: bool
  prompt_passwordCheck :: jsval
  dateCreated :: nat
  dateModified :: nat

text \<open>
  The part of \<open>state\<close> the vault reads and writes, together with what lies outside it:
  the two object stores of the database, the messages of the alerts displayed so far, the
  number of password dialogs displayed so far, the number of random draws made so far,
  whether the element \<open>#generic-modal\<close> carries the class \<open>show\<close>, and the number of
  operations that took real time so far.
\<close>

record app_state =
  prompts :: "prompt list"
  folders :: "folder list"
  currentTags :: "jstring list"
  currentPromptId :: "nat option"
  isCreatingNew :: bool
  isSelectMode :: bool
  selectedPromptIds :: "nat set"
  folderToEditId :: "nat option"
  sessionPasswords :: "string \<rightharpoonup> jstring"
  newPromptLockInfo :: "jstring option"
  db_prompts :: "nat \<rightharpoonup> prompt"
  db_folders :: "nat \<rightharpoonup> folder"
  alerts :: "string list"
  passwordDialogs :: nat
  draws :: nat
  genericModalShown :: bool
  clock :: nat

text \<open>
  A handler either returns or stops at an uncaught exception; in both cases the objects
  it has mutated so far stay mutated, so both carry the state.
\<close>

datatype 'a outcome = Returned 'a | Threw error 'a

text \<open>\<open>state.folders.find((f) => f.id === folderId)\<close>, where \<open>folderId\<close> may be \<open>null\<close>.\<close>

definition find_folder :: "folder list \<Rightarrow> nat option \<Rightarrow> folder option" where
  "find_folder fs i = (case i of None \<Rightarrow> None | Some k \<Rightarrow> find (\<lambda>f. folder_id f = k) fs)"

text \<open>Mutating the object that \<open>find\<close> returned: the first element that satisfies \<open>P\<close>.\<close>

fun update_first :: "('a \<Rightarrow> bool) \<Rightarrow> ('a \<Rightarrow> 'a) \<Rightarrow> 'a list \<Rightarrow> 'a list" where
  "update_first P g [] = []"
| "update_first P g (x # xs) = (if P x then g x # xs else x # update_first P g xs)"

definition bulkPut :: "(nat \<rightharpoonup> prompt) \<Rightarrow> prompt list \<Rightarrow> (nat \<rightharpoonup> prompt)" where
  "bulkPut db items = fold (\<lambda>p m. m(prompt_id p \<mapsto> p)) items db"


section \<open>ModalService and the operations that take time\<close>

text \<open>
  \<open>hideModal\<close> leaves the class \<open>show\<close> on the element and removes it in a timer, after
  the closing animation. The timer can only fire while the handler waits for an operation
  that takes real time. \<open>elapse\<close> is such a wait: the \<open>k\<close>-th of them lets a pending
  timer fire when \<open>timer_fires W k\<close>.
\<close>

definition elapse :: "'k platform \<Rightarrow> app_state \<Rightarrow> app_state" where
  "elapse W st = st\<lparr>genericModalShown := genericModalShown st \<and> \<not> timer_fires W (clock st),
                      clock := Suc (clock st)\<rparr>"


text \<open>
  \<open>ModalService.show\<close> resolves \<open>false\<close> at once, and displays nothing, when the element
  still carries \<open>show\<close>. Otherwise the dialog is displayed, and when the user has answered
  it \<open>hideModal\<close> has been called: the element carries \<open>show\<close> until the timer fires.

  \<open>ModalService.alert\<close>: the handlers do not read its result.
\<close>

definition alert :: "string \<Rightarrow> app_state \<Rightarrow> app_state" where
  "alert message st =
     (if genericModalShown st then st
      else st\<lparr>alerts := alerts st @ [message], genericModalShown := True\<rparr>)"

text \<open>
  \<open>ModalService.password\<close> without \<open>validate\<close>: \<open>answer\<close> is what the user does with the
  dialog if it is displayed, the text typed or \<open>None\<close> for Cancel. The result is the text,
  or \<open>None\<close> for \<open>null\<close> (cancelled) and for \<open>false\<close> (not displayed), which the handlers
  do not tell apart. \<open>after_password\<close> is the state when the call has resolved.
\<close>

definition password_result :: "app_state \<Rightarrow> jstring option \<Rightarrow> jstring option" where
  "password_result st answer = (if genericModalShown st then None else answer)"

definition after_password :: "app_state \<Rightarrow> app_state" where
  "after_password st =
     (if genericModalShown st then st
      else st\<lparr>passwordDialogs := Suc (passwordDialogs st), genericModalShown := True\<rparr>)"

text \<open>
  The state after \<open>await CryptoService.decrypt(...)\<close> and \<open>await CryptoService.encrypt(...)\<close>;
  the value of the call is \<open>decrypt\<close> or \<open>encrypt\<close> itself, the latter at the draws of the
  state before.
\<close>

definition after_decrypt :: "'k platform \<Rightarrow> jsval \<Rightarrow> jstring \<Rightarrow> app_state \<Rightarrow> app_state" where
  "after_decrypt W encryptedData password st =
     (if decrypt_takes_time W encryptedData password then elapse W st else st)"

definition after_encrypt :: "'k platform \<Rightarrow> jsval \<Rightarrow> jstring \<Rightarrow> app_state \<Rightarrow> app_state" where
  "after_encrypt W text password st =
     (if encrypt_takes_time text password then elapse W st else st)
       \<lparr>draws := snd (encrypt W (draws st) text password)\<rparr>"

text \<open>
  \<open>await DB.bulkPut(STORES.PROMPTS, items)\<close>, which opens no transaction for an empty list,
  and \<open>await DB.put\<close> on either store.
\<close>

definition await_bulkPut :: "'k platform \<Rightarrow> prompt list \<Rightarrow> app_state \<Rightarrow> app_state" where
  "await_bulkPut W items st =
     (if items = [] then st else elapse W st)\<lparr>db_prompts := bulkPut (db_prompts st) items\<rparr>"

definition await_put_folder :: "'k platform \<Rightarrow> folder \<Rightarrow> app_state \<Rightarrow> app_state" where
  "await_put_folder W f st = (elapse W st)\<lparr>db_folders := (db_folders st)(folder_id f \<mapsto> f)\<rparr>"

definition await_put_prompt :: "'k platform \<Rightarrow> prompt \<Rightarrow> app_state \<Rightarrow> app_state" where
  "await_put_prompt W p st = (elapse W st)\<lparr>db_prompts := (db_prompts st)(prompt_id p \<mapsto> p)\<rparr>"

section \<open>Which lock governs a prompt\<close>

text \<open>\<open>(folder && folder.isLocked) || prompt.isLocked\<close>, as \<open>renderPrompts\<close> computes it.\<close>

definition isLockedByFolder :: "folder list \<Rightarrow> prompt \<Rightarrow> bool" where
  "isLockedByFolder fs p =
     (case find_folder fs (folderId p) of None \<Rightarrow> False | Some f \<Rightarrow> folder_isLocked f)"

definition isLocked :: "folder list \<Rightarrow> prompt \<Rightarrow> bool" where
  "isLocked fs p \<longleftrightarrow> isLockedByFolder fs p \<or> prompt_isLocked p"

text \<open>\<open>handleDragStart\<close>: dragging a locked prompt is prevented.\<close>

definition drag_prevented :: "folder list \<Rightarrow> prompt \<Rightarrow> bool" where
  "drag_prevented fs p \<longleftrightarrow>
     prompt_isLocked p \<or> (case find_folder fs (folderId p) of None \<Rightarrow> False | Some f \<Rightarrow> folder_isLocked f)"

text \<open>The entity whose password is asked for: \<open>item\<close> in the source.\<close>

datatype item = FolderItem folder | PromptItem prompt

text \<open>
  \<open>handlePromptListClick\<close>, opening a prompt: \<open>None\<close> when the prompt is not locked,
  otherwise the item that is asked for its password and the key of the session cache.
\<close>

definition click_lock :: "folder list \<Rightarrow> prompt \<Rightarrow> (item \<times> string) option" where
  "click_lock fs p =
     (case find_folder fs (folderId p) of
        Some f \<Rightarrow>
          if folder_isLocked f then Some (FolderItem f, ''folder-'' @ String_of (folder_id f))
          else if prompt_isLocked p then Some (PromptItem p, ''prompt-'' @ String_of (prompt_id p))
          else None
      | None \<Rightarrow>
          if prompt_isLocked p then Some (PromptItem p, ''prompt-'' @ String_of (prompt_id p))
          else None)"

text \<open>
  \<open>renderPromptDetails\<close>: the key under which the session password is looked up, the
  value of \<open>isLocked\<close>, and the \<open>disabled\<close> and \<open>checked\<close> properties given to the prompt's
  own lock switch.
\<close>

record details_lock =
  key :: string
  details_isLocked :: bool
  switch_disabled :: bool
  switch_checked :: bool

definition details_lock :: "folder list \<Rightarrow> prompt \<Rightarrow> details_lock" where
  "details_lock fs p =
     (let byFolder = isLockedByFolder fs p;
          individually = prompt_isLocked p
      in \<lparr>key = (case find_folder fs (folderId p) of
                    Some f \<Rightarrow> if folder_isLocked f then ''folder-'' @ String_of (folder_id f)
                              else ''prompt-'' @ String_of (prompt_id p)
                  | None \<Rightarrow> ''prompt-'' @ String_of (prompt_id p)),
          details_isLocked = (byFolder \<or> individually),
          switch_disabled = byFolder,
          switch_checked = individually\<rparr>)"

text \<open>
  The quick-copy button of \<open>handlePromptListClick\<close>: \<open>None\<close> when the prompt is not locked,
  otherwise \<open>checkString\<close> and \<open>checkValue\<close>.
\<close>

definition quick_copy_check :: "folder list \<Rightarrow> prompt \<Rightarrow> (string \<times> jsval) option" where
  "quick_copy_check fs p =
     (if isLocked fs p then
        (case find_folder fs (folderId p) of
           Some f \<Rightarrow>
             if folder_isLocked f then Some (String_of (folder_id f), folder_passwordCheck f)
             else Some (String_of (prompt_id p), prompt_passwordCheck p)
         | None \<Rightarrow> Some (String_of (prompt_id p), prompt_passwordCheck p))
      else None)"

section \<open>handleToggleFolderLock\<close>

text \<open>
  The two loops over \<open>promptsToUpdate\<close>, the prompts whose \<open>folderId\<close> is the folder's id.
  They mutate the prompt objects of \<open>state.prompts\<close>, so they are written over that list,
  and they thread the state for the time and the random draws they take. \<open>decrypt\<close> can
  throw on a \<open>null\<close> field; the loop stops there, with the fields assigned so far.
\<close>

fun unlock_prompts :: "'k platform \<Rightarrow> nat \<Rightarrow> jstring \<Rightarrow> prompt list \<Rightarrow> app_state \<Rightarrow>
    prompt list \<times> error option \<times> app_state" where
  "unlock_prompts W fid password [] st = ([], None, st)"
| "unlock_prompts W fid password (p # ps) st =
     (if folderId p = Some fid then
        (case decrypt W (body p) password of
           Inl e \<Rightarrow> (p # ps, Some e, st)
         | Inr b \<Rightarrow>
             (let st1 = after_decrypt W (body p) password st
              in case decrypt W (prompt_notes p) password of
                   Inl e \<Rightarrow> (p\<lparr>body := b\<rparr> # ps, Some e, st1)
                 | Inr t \<Rightarrow>
                     (case unlock_prompts W fid password ps
                             (after_decrypt W (prompt_notes p) password st1) of
                        (ps', r, st') \<Rightarrow> (p\<lparr>body := b, prompt_notes := t\<rparr> # ps', r, st'))))
      else
        (case unlock_prompts W fid password ps st of (ps', r, st') \<Rightarrow> (p # ps', r, st')))"

fun lock_prompts :: "'k platform \<Rightarrow> nat \<Rightarrow> jstring \<Rightarrow> prompt list \<Rightarrow> app_state \<Rightarrow>
    prompt list \<times> app_state" where
  "lock_prompts W fid password [] st = ([], st)"
| "lock_prompts W fid password (p # ps) st =
     (if folderId p = Some fid then
        (let b = fst (encrypt W (draws st) (body p) password);
             st1 = after_encrypt W (body p) password st;
             t = fst (encrypt W (draws st1) (prompt_notes p) password);
             st2 = after_encrypt W (prompt_notes p) password st1
         in case lock_prompts W fid password ps st2 of
              (ps', st') \<Rightarrow> (p\<lparr>body := b, prompt_notes := t\<rparr> # ps', st'))
      else
        (case lock_prompts W fid password ps st of (ps', st') \<Rightarrow> (p # ps', st')))"

text \<open>
  \<open>answer\<close> is what the user does with the password dialog if it is displayed. The
  folder object is mutated before the loop, the stores are written after it.
\<close>

definition handleToggleFolderLock :: "'k platform \<Rightarrow> app_state \<Rightarrow> jstring option \<Rightarrow> app_state outcome" where
  "handleToggleFolderLock W st answer =
     (case find_folder (folders st) (folderToEditId st) of
        None \<Rightarrow> Returned st
      | Some folder \<Rightarrow>
          if folder_isLocked folder then
            (case password_result st answer of
               None \<Rightarrow> Returned (after_password st)
             | Some password \<Rightarrow>
                 if password = [] then Returned (after_password st)
                 else
                   (case decrypt W (folder_passwordCheck folder) password of
                      Inl e \<Rightarrow> Threw e (after_password st)
                    | Inr check \<Rightarrow>
                        (let st1 = after_decrypt W (folder_passwordCheck folder) password
                                     (after_password st)
                         in if check \<noteq> JStr (js (String_of (folder_id folder)))
                            then Returned (alert ''Incorrect password.'' st1)
                            else
                              (let folder' = folder\<lparr>folder_isLocked := False, folder_passwordCheck := JNull\<rparr>;
                                   fs = update_first (\<lambda>f. folder_id f = folder_id folder) (\<lambda>f. folder') (folders st)
                               in case unlock_prompts W (folder_id folder) password (prompts st) st1 of
                                    (ps, Some e, st2) \<Rightarrow> Threw e (st2\<lparr>prompts := ps, folders := fs\<rparr>)
                                  | (ps, None, st2) \<Rightarrow>
                                      Returned (await_put_folder W folder'
                                        (await_bulkPut W (filter (\<lambda>p. folderId p = Some (folder_id folder)) ps)
                                          (st2\<lparr>prompts := ps, folders := fs\<rparr>)))))))
          else
            (case password_result st answer of
               None \<Rightarrow> Returned (after_password st)
             | Some password \<Rightarrow>
                 if password = [] then Returned (after_password st)
                 else
                   (let text = JStr (js (String_of (folder_id folder)));
                        check = fst (encrypt W (draws st) text password);
                        st1 = after_encrypt W text password (after_password st);
                        folder' = folder\<lparr>folder_isLocked := True, folder_passwordCheck := check\<rparr>;
                        fs = update_first (\<lambda>f. folder_id f = folder_id folder) (\<lambda>f. folder') (folders st)
                    in case lock_prompts W (folder_id folder) password (prompts st) st1 of
                         (ps, st2) \<Rightarrow>
                           Returned (await_put_folder W folder'
                             (await_bulkPut W (filter (\<lambda>p. folderId p = Some (folder_id folder)) ps)
                               (st2\<lparr>prompts := ps, folders := fs\<rparr>))))))"

section \<open>handleConfirmMove\<close>

text \<open>
  The owner whose password a selected prompt needs before it can be moved: the value of
  \<open>passwordCheck\<close>, the string it must decrypt to, and the message shown when it does not.
  The locked folder comes first, the prompt's own lock second; \<open>None\<close> when neither holds.
\<close>

definition source_check :: "folder list \<Rightarrow> prompt \<Rightarrow> (jsval \<times> string \<times> string) option" where
  "source_check fs p =
     (case find_folder fs (folderId p) of
        Some originalFolder \<Rightarrow>
          if folder_isLocked originalFolder then
            Some (folder_passwordCheck originalFolder, String_of (folder_id originalFolder),
                  ''Skipping prompt: incorrect password for source folder.'')
          else if prompt_isLocked p then
            Some (prompt_passwordCheck p, String_of (prompt_id p),
                  ''Skipping prompt: incorrect password for prompt.'')
          else None
      | None \<Rightarrow>
          if prompt_isLocked p then
            Some (prompt_passwordCheck p, String_of (prompt_id p),
                  ''Skipping prompt: incorrect password for prompt.'')
          else None)"

text \<open>
  What both locked branches of the loop do, \<open>answer\<close> being what the user does with the
  password dialog if it is displayed: skip on no password, skip on a check that does not
  decrypt to the id, otherwise decrypt body and notes. Each skip calls
  \<open>ModalService.alert\<close>. The result comes with the state after it.
\<close>

datatype source = Decrypted jsval jsval | Skip | Raise error

definition unlock_source :: "'k platform \<Rightarrow> jsval \<Rightarrow> string \<Rightarrow> string \<Rightarrow> prompt \<Rightarrow>
    jstring option \<Rightarrow> app_state \<Rightarrow> source \<times> app_state" where
  "unlock_source W checkValue checkString message p answer st =
     (case password_result st answer of
        None \<Rightarrow> (Skip, alert ''Skipping prompt.'' (after_password st))
      | Some oldPass \<Rightarrow>
          if oldPass = [] then (Skip, alert ''Skipping prompt.'' (after_password st))
          else
            (case decrypt W checkValue oldPass of
               Inl e \<Rightarrow> (Raise e, after_password st)
             | Inr check \<Rightarrow>
                 (let st1 = after_decrypt W checkValue oldPass (after_password st)
                  in if check \<noteq> JStr (js checkString) then (Skip, alert message st1)
                     else
                       (case decrypt W (body p) oldPass of
                          Inl e \<Rightarrow> (Raise e, st1)
                        | Inr currentBody \<Rightarrow>
                            (let st2 = after_decrypt W (body p) oldPass st1
                             in case decrypt W (prompt_notes p) oldPass of
                                  Inl e \<Rightarrow> (Raise e, st2)
                                | Inr currentNotes \<Rightarrow>
                                    (Decrypted currentBody currentNotes,
                                     after_decrypt W (prompt_notes p) oldPass st2))))))"

text \<open>The end of the loop body: the prompt's own lock is cleared and the content stored.\<close>

definition store_moved :: "'k platform \<Rightarrow> jstring option \<Rightarrow> nat option \<Rightarrow> prompt \<Rightarrow> jsval \<Rightarrow> jsval \<Rightarrow>
    app_state \<Rightarrow> prompt \<times> app_state" where
  "store_moved W destPassword newFolderId p currentBody currentNotes st =
     (let p1 = p\<lparr>prompt_isLocked := False, prompt_passwordCheck := JNull\<rparr>
      in case destPassword of
           None \<Rightarrow> (p1\<lparr>body := currentBody, prompt_notes := currentNotes, folderId := newFolderId\<rparr>, st)
         | Some dest \<Rightarrow>
             if dest = [] then
               (p1\<lparr>body := currentBody, prompt_notes := currentNotes, folderId := newFolderId\<rparr>, st)
             else
               (let b = fst (encrypt W (draws st) currentBody dest);
                    st1 = after_encrypt W currentBody dest st;
                    t = fst (encrypt W (draws st1) currentNotes dest);
                    st2 = after_encrypt W currentNotes dest st1
                in (p1\<lparr>body := b, prompt_notes := t, folderId := newFolderId\<rparr>, st2)))"

text \<open>
  \<open>answers\<close> are what the user does with the password dialogs that will be displayed, in
  order; a dialog that finds none left counts as cancelled, and a dialog that is not
  displayed uses none.
\<close>

definition next_answer :: "jstring option list \<Rightarrow> jstring option" where
  "next_answer answers = (case answers of [] \<Rightarrow> None | a # rest \<Rightarrow> a)"

definition answers_left :: "app_state \<Rightarrow> jstring option list \<Rightarrow> jstring option list" where
  "answers_left st answers = (if genericModalShown st then answers else tl answers)"

text \<open>
  The loop over \<open>promptsToUpdate\<close>, the selected prompts, written over \<open>state.prompts\<close>. The
  result is the exception that stopped the loop, if any, the prompts and the state.
\<close>

fun move_loop :: "'k platform \<Rightarrow> folder list \<Rightarrow> jstring option \<Rightarrow> nat option \<Rightarrow> nat set \<Rightarrow>
    prompt list \<Rightarrow> jstring option list \<Rightarrow> app_state \<Rightarrow>
    error option \<times> prompt list \<times> app_state" where
  "move_loop W fs destPassword newFolderId sel [] answers st = (None, [], st)"
| "move_loop W fs destPassword newFolderId sel (p # ps) answers st =
     (if prompt_id p \<in> sel then
        (case source_check fs p of
           None \<Rightarrow>
             (case store_moved W destPassword newFolderId p (body p) (prompt_notes p) st of
                (p', st1) \<Rightarrow>
                  (case move_loop W fs destPassword newFolderId sel ps answers st1 of
                     (r, ps', st2) \<Rightarrow> (r, p' # ps', st2)))
         | Some (checkValue, checkString, message) \<Rightarrow>
             (case unlock_source W checkValue checkString message p (next_answer answers) st of
                (Raise e, st1) \<Rightarrow> (Some e, p # ps, st1)
              | (Skip, st1) \<Rightarrow>
                  (case move_loop W fs destPassword newFolderId sel ps (answers_left st answers) st1 of
                     (r, ps', st2) \<Rightarrow> (r, p # ps', st2))
              | (Decrypted currentBody currentNotes, st1) \<Rightarrow>
                  (case store_moved W destPassword newFolderId p currentBody currentNotes st1 of
                     (p', st2) \<Rightarrow>
                       (case move_loop W fs destPassword newFolderId sel ps (answers_left st answers) st2 of
                          (r, ps', st3) \<Rightarrow> (r, p' # ps', st3)))))
      else
        (case move_loop W fs destPassword newFolderId sel ps answers st of
           (r, ps', st1) \<Rightarrow> (r, p # ps', st1)))"

text \<open>
  \<open>newFolderId\<close> is the folder chosen in the dialog (\<open>None\<close> for "No Folder") and
  \<open>movePasswordInput\<close> the text of its password field. The destination's password is
  checked before the loop.
\<close>

definition move_selected :: "'k platform \<Rightarrow> app_state \<Rightarrow> jstring option \<Rightarrow> nat option \<Rightarrow>
    jstring option list \<Rightarrow> app_state outcome" where
  "move_selected W st destPassword newFolderId answers =
     (case move_loop W (folders st) destPassword newFolderId (selectedPromptIds st)
             (prompts st) answers st of
        (Some e, ps, st1) \<Rightarrow> Threw e (st1\<lparr>prompts := ps\<rparr>)
      | (None, ps, st1) \<Rightarrow>
          Returned ((await_bulkPut W (filter (\<lambda>p. prompt_id p \<in> selectedPromptIds st) ps)
                       (st1\<lparr>prompts := ps\<rparr>))
                    \<lparr>selectedPromptIds := {}, isSelectMode := False\<rparr>))"

definition handleConfirmMove :: "'k platform \<Rightarrow> app_state \<Rightarrow> nat option \<Rightarrow> jstring \<Rightarrow>
    jstring option list \<Rightarrow> app_state outcome" where
  "handleConfirmMove W st newFolderId movePasswordInput answers =
     (case find_folder (folders st) newFolderId of
        None \<Rightarrow> move_selected W st None newFolderId answers
      | Some destFolder \<Rightarrow>
          if folder_isLocked destFolder then
            (case decrypt W (folder_passwordCheck destFolder) movePasswordInput of
               Inl e \<Rightarrow> Threw e st
             | Inr check \<Rightarrow>
                 (let st1 = after_decrypt W (folder_passwordCheck destFolder) movePasswordInput st
                  in if check \<noteq> JStr (js (String_of (folder_id destFolder)))
                     then Returned (alert ''Incorrect password for the destination folder.'' st1)
                     else move_selected W st1 (Some movePasswordInput) newFolderId answers))
          else move_selected W st None newFolderId answers)"

section \<open>handleSavePrompt\<close>

text \<open>
  \<open>state.sessionPasswords[`folder-${folderId}`] || state.sessionPasswords[`prompt-${id}`]\<close>:
  the first entry unless it is missing or empty, then the second.
\<close>

definition folder_key :: "nat option \<Rightarrow> string" where
  "folder_key folderId' = ''folder-'' @ (case folderId' of None \<Rightarrow> ''null'' | Some i \<Rightarrow> String_of i)"

definition prompt_key :: "nat \<Rightarrow> string" where
  "prompt_key i = ''prompt-'' @ String_of i"

definition save_password :: "(string \<rightharpoonup> jstring) \<Rightarrow> nat option \<Rightarrow> nat \<Rightarrow> jstring option" where
  "save_password sp folderId' promptId =
     (case sp (folder_key folderId') of
        Some pw \<Rightarrow> if pw \<noteq> [] then Some pw else sp (prompt_key promptId)
      | None \<Rightarrow> sp (prompt_key promptId))"

text \<open>
  The arguments after the state are what the handler reads from the page: the trimmed
  title, the body, the trimmed notes, the folder chosen (\<open>None\<close> for "No Folder") and
  \<open>Date.now()\<close>. Closing the details view afterwards is left to a timer and is not part
  of the handler.
\<close>

definition handleSavePrompt :: "'k platform \<Rightarrow> app_state \<Rightarrow> jstring \<Rightarrow> jstring \<Rightarrow> jstring \<Rightarrow>
    nat option \<Rightarrow> nat \<Rightarrow> app_state outcome" where
  "handleSavePrompt W st title' body' notes' folderId' now =
     (if title' = [] \<and> body' = [] \<and> notes' = [] then
        Returned (alert ''Prompt cannot be completely empty.'' st)
      else if isCreatingNew st then
        (let (b, t, check, locked, st3) =
               (case newPromptLockInfo st of
                  Some password \<Rightarrow>
                    (let b = fst (encrypt W (draws st) (JStr body') password);
                         st1 = after_encrypt W (JStr body') password st;
                         t = fst (encrypt W (draws st1) (JStr notes') password);
                         st2 = after_encrypt W (JStr notes') password st1;
                         check = fst (encrypt W (draws st2) (JStr (js (String_of now))) password);
                         st3 = after_encrypt W (JStr (js (String_of now))) password st2
                     in (b, t, check, True, st3))
                | None \<Rightarrow> (JStr body', JStr notes', JUndefined, False, st));
             promptToSave = \<lparr>prompt_id = now, title = title', body = b, prompt_notes = t,
               folderId = folderId', tags = currentTags st, isFavorite = False,
               prompt_isLocked = locked, prompt_passwordCheck = check,
               dateCreated = now, dateModified = now\<rparr>
         in Returned (await_put_prompt W promptToSave
              (st3\<lparr>prompts := prompts st @ [promptToSave]\<rparr>)))
      else
        (case (case currentPromptId st of None \<Rightarrow> None
               | Some i \<Rightarrow> find (\<lambda>p. prompt_id p = i) (prompts st)) of
           None \<Rightarrow> Threw TypeError st
         | Some found \<Rightarrow>
             (let (b, t, st2) =
                    (case save_password (sessionPasswords st) folderId' (prompt_id found) of
                       Some password \<Rightarrow>
                         if password \<noteq> [] then
                           (let b = fst (encrypt W (draws st) (JStr body') password);
                                st1 = after_encrypt W (JStr body') password st;
                                t = fst (encrypt W (draws st1) (JStr notes') password);
                                st2 = after_encrypt W (JStr notes') password st1
                            in (b, t, st2))
                         else (JStr body', JStr notes', st)
                     | None \<Rightarrow> (JStr body', JStr notes', st));
                  promptToSave = found\<lparr>body := b, prompt_notes := t, title := title',
                    folderId := folderId', tags := currentTags st, dateModified := now\<rparr>
              in Returned (await_put_prompt W promptToSave
                   (st2\<lparr>prompts := update_first (\<lambda>p. prompt_id p = prompt_id found)
                                     (\<lambda>p. promptToSave) (prompts st)\<rparr>)))))"

section \<open>A small vault on which the handlers are run\<close>

text \<open>
  One folder \<open>F\<close> with id 1 and one prompt \<open>P\<close> with id 2 in it, body \<open>secret\<close> and empty
  notes, nothing locked and no dialog on display; the folder is the one open in the folder
  settings.
\<close>

definition ex_folder :: folder where
  "ex_folder = \<lparr>folder_id = 1, name = js ''F'', folder_isLocked = False, folder_passwordCheck = JNull\<rparr>"

definition ex_prompt :: prompt where
  "ex_prompt = \<lparr>prompt_id = 2, title = js ''P'', body = JStr (js ''secret''), prompt_notes = JStr [],
     folderId = Some 1, tags = [], isFavorite = False, prompt_isLocked = False,
     prompt_passwordCheck = JUndefined, dateCreated = 2, dateModified = 2\<rparr>"

definition ex_state :: app_state where
  "ex_state = \<lparr>prompts = [ex_prompt], folders = [ex_folder], currentTags = [],
     currentPromptId = None, isCreatingNew = False, isSelectMode = False,
     selectedPromptIds = {}, folderToEditId = Some 1, sessionPasswords = Map.empty,
     newPromptLockInfo = None, db_prompts = Map.empty, db_folders = Map.empty,
     alerts = [], passwordDialogs = 0, draws = 0, genericModalShown = False, clock = 0\<rparr>"

section \<open>Reading outcomes and the shape of a field\<close>

fun state_of :: "'a outcome \<Rightarrow> 'a" where
  "state_of (Returned s) = s"
| "state_of (Threw e s) = s"

fun returned :: "'a outcome \<Rightarrow> bool" where
  "returned (Returned s) = True"
| "returned (Threw e s) = False"

text \<open>
  Two states with the same vault: they differ at most in what lies outside it, the
  alerts and dialogs displayed, the random draws, the class of the modal and the clock.
\<close>

definition same_vault :: "app_state \<Rightarrow> app_state \<Rightarrow> bool" where
  "same_vault st st' \<longleftrightarrow>
     st' = st\<lparr>alerts := alerts st', passwordDialogs := passwordDialogs st', draws := draws st',
              genericModalShown := genericModalShown st', clock := clock st'\<rparr>"

fun is_plain :: "jsval \<Rightarrow> bool" where
  "is_plain (JStr s) = True"
| "is_plain v = False"

fun is_cipher :: "jsval \<Rightarrow> bool" where
  "is_cipher (JObj c) = True"
| "is_cipher v = False"

text \<open>
  The representation of a prompt as the specification words it: plain strings when
  neither the prompt nor its folder is locked, ciphertext objects otherwise.
\<close>

definition spec_representation :: "folder list \<Rightarrow> prompt \<Rightarrow> bool" where
  "spec_representation fs p =
     (if isLocked fs p then is_cipher (body p) \<and> is_cipher (prompt_notes p)
      else is_plain (body p) \<and> is_plain (prompt_notes p))"

text \<open>
  The representation the lock transition keeps: under a lock a field is a ciphertext
  object or the empty string, which \<open>encrypt\<close> returns as it is.
\<close>

definition representation :: "folder list \<Rightarrow> prompt \<Rightarrow> bool" where
  "representation fs p =
     (if isLocked fs p
      then (is_cipher (body p) \<or> body p = JStr []) \<and> (is_cipher (prompt_notes p) \<or> prompt_notes p = JStr [])
      else is_plain (body p) \<and> is_plain (prompt_notes p))"

text \<open>
  A locked folder with two prompts: the first holds a body encrypted under another
  password than the folder's, the second a body encrypted under the folder's password.
\<close>

definition ex_locked_state :: app_state where
  "ex_locked_state = ex_state\<lparr>
     folders := [ex_folder\<lparr>folder_isLocked := True,
                   folder_passwordCheck := fst (encrypt toy 0 (JStr (js ''1'')) (js ''pw1''))\<rparr>],
     prompts := [ex_prompt\<lparr>body := fst (encrypt toy 2 (JStr (js ''secret'')) (js ''other''))\<rparr>,
                 ex_prompt\<lparr>prompt_id := 3, body := fst (encrypt toy 4 (JStr (js ''ok'')) (js ''pw1''))\<rparr>]\<rparr>"

text \<open>
  A vault for moving: folder 1 is locked under \<open>pw1\<close>, folder 7 is not locked, folder 9
  is locked under \<open>pw9\<close>. Prompts 2 and 3 are in folder 1, encrypted under \<open>pw1\<close>, and
  both are selected.
\<close>

definition ex_move_state :: app_state where
  "ex_move_state = ex_state\<lparr>
     folders := [ex_folder\<lparr>folder_isLocked := True,
                   folder_passwordCheck := fst (encrypt toy 0 (JStr (js ''1'')) (js ''pw1''))\<rparr>,
                 ex_folder\<lparr>folder_id := 7, name := js ''G''\<rparr>,
                 ex_folder\<lparr>folder_id := 9, name := js ''H'', folder_isLocked := True,
                   folder_passwordCheck := fst (encrypt toy 2 (JStr (js ''9'')) (js ''pw9''))\<rparr>],
     prompts := [ex_prompt\<lparr>body := fst (encrypt toy 4 (JStr (js ''secret'')) (js ''pw1''))\<rparr>,
                 ex_prompt\<lparr>prompt_id := 3, body := fst (encrypt toy 6 (JStr (js ''ok'')) (js ''pw1''))\<rparr>],
     selectedPromptIds := {2, 3}, isSelectMode := True, draws := 8\<rparr>"

text \<open>The same vault with prompt 2 alone selected.\<close>

definition ex_move_one :: app_state where
  "ex_move_one = ex_move_state\<lparr>selectedPromptIds := {2}\<rparr>"

text \<open>
  The small vault after its folder was locked, remembered for the session and unlocked
  again: nothing is locked, the session cache still holds the folder's password, and the
  prompt is open in the details view.
\<close>

definition ex_stale_state :: app_state where
  "ex_stale_state = ex_state\<lparr>currentPromptId := Some 2,
     sessionPasswords := [''folder-1'' \<mapsto> js ''pw1'']\<rparr>"

section \<open>Facts about the byte and base64 plumbing\<close>

lemma charCodeAt_fromCharCode: "charCodeAt (fromCharCode b) = b"
proof -
  have "unat b < 256" using unsigned_less [of b, where ?'a = nat] by simp
  then show ?thesis by (simp add: charCodeAt_def fromCharCode_def)
qed

lemma map_charCodeAt_fromCharCode: "map (charCodeAt \<circ> fromCharCode) bs = bs"
  by (induction bs) (simp_all add: charCodeAt_fromCharCode)

lemma carrier: "platform_roundtrip W \<Longrightarrow> carrier_roundtrip W"
  by (simp add: platform_roundtrip_def)

lemma base64_roundtrip:
  "carrier_roundtrip W \<Longrightarrow> base64ToArrayBuffer W (arrayBufferToBase64 W bs) = Some bs"
  by (simp add: carrier_roundtrip_def base64ToArrayBuffer_def arrayBufferToBase64_def
      map_charCodeAt_fromCharCode)

lemma base64_nonempty:
  "carrier_roundtrip W \<Longrightarrow> bs \<noteq> [] \<Longrightarrow> arrayBufferToBase64 W bs \<noteq> []"
  by (auto simp add: carrier_roundtrip_def arrayBufferToBase64_def)


lemma js_empty: "js s = [] \<longleftrightarrow> s = []"
  by (simp add: js_def)


lemma decrypt_str: "decrypt W (JStr s) p = Inr (JStr s)"
  by (simp add: decrypt_def)

lemma decrypt_null: "decrypt W JNull p = Inl TypeError"
  by (simp add: decrypt_def)

text \<open>
  What \<open>encrypt\<close> returns for a string: the string itself through the guard or the
  fallback, otherwise the object made of the ciphertext, the iv and the salt.
\<close>

lemma encrypt_str:
  "fst (encrypt W n (JStr s) p) =
     (if s = [] \<or> p = [] then JStr s
      else case aes_gcm_encrypt W (deriveKey W p (getRandomValues W n 16))
                  (getRandomValues W (Suc n) 12) (text_encode W s) of
             None \<Rightarrow> JStr s
           | Some e \<Rightarrow> JObj \<lparr>ct = arrayBufferToBase64 W e,
                              iv = arrayBufferToBase64 W (getRandomValues W (Suc n) 12),
                              salt = arrayBufferToBase64 W (getRandomValues W n 16)\<rparr>)"
  by (simp add: encrypt_def Let_def split: option.splits)

text \<open>Decrypting an object that carries base64 under a non-empty password.\<close>

lemma decrypt_obj:
  assumes "carrier_roundtrip W" and "e \<noteq> []" and "p \<noteq> []"
  shows "decrypt W (JObj \<lparr>ct = arrayBufferToBase64 W e, iv = arrayBufferToBase64 W v,
                          salt = arrayBufferToBase64 W sb\<rparr>) p =
         (case aes_gcm_decrypt W (deriveKey W p sb) v e of
            None \<Rightarrow> Inr JNull
          | Some m \<Rightarrow> Inr (JStr (text_decode W m)))"
  using assms(2,3)
  by (simp add: decrypt_def base64_roundtrip [OF assms(1)] base64_nonempty [OF assms(1)])

text \<open>Decrypting what \<open>encrypt\<close> made of a string under the same password.\<close>

lemma decrypt_encrypt_any:
  assumes "carrier_roundtrip W"
  shows "decrypt W (fst (encrypt W n (JStr s) p)) p =
         Inr (JStr (if is_cipher (fst (encrypt W n (JStr s) p))
                    then text_decode W (text_encode W s) else s))"
proof (cases "s = [] \<or> p = []")
  case True
  then show ?thesis by (auto simp add: encrypt_str decrypt_str)
next
  case False
  let ?k = "deriveKey W p (getRandomValues W n 16)"
  let ?v = "getRandomValues W (Suc n) 12"
  show ?thesis
  proof (cases "aes_gcm_encrypt W ?k ?v (text_encode W s)")
    case None
    with False show ?thesis by (simp add: encrypt_str decrypt_str)
  next
    case (Some e)
    from assms Some have e: "e \<noteq> []" "aes_gcm_decrypt W ?k ?v e = Some (text_encode W s)"
      by (auto simp add: carrier_roundtrip_def)
    from False Some e show ?thesis
      by (simp add: encrypt_str decrypt_obj [OF assms])
  qed
qed

lemma decrypt_encrypt:
  assumes "platform_roundtrip W" and "well_formed s \<or> p = []"
  shows "decrypt W (fst (encrypt W n (JStr s) p)) p = Inr (JStr s)"
proof (cases "p = []")
  case True
  then show ?thesis by (simp add: encrypt_str decrypt_str)
next
  case False
  with assms(2) have "well_formed s" by simp
  with assms(1) have "text_decode W (text_encode W s) = s"
    by (simp add: platform_roundtrip_def)
  then show ?thesis by (simp add: decrypt_encrypt_any [OF carrier [OF assms(1)]])
qed

text \<open>Decrypting what \<open>encrypt\<close> made of a string under any non-empty password.\<close>

lemma decrypt_encrypt_other:
  assumes "carrier_roundtrip W" and "s \<noteq> []" and "p1 \<noteq> []" and "p2 \<noteq> []"
    and "aes_gcm_encrypt W (deriveKey W p1 (getRandomValues W n 16))
           (getRandomValues W (Suc n) 12) (text_encode W s) = Some e"
  shows "decrypt W (fst (encrypt W n (JStr s) p1)) p2 =
         (case aes_gcm_decrypt W (deriveKey W p2 (getRandomValues W n 16))
                 (getRandomValues W (Suc n) 12) e of
            None \<Rightarrow> Inr JNull
          | Some m \<Rightarrow> Inr (JStr (text_decode W m)))"
proof -
  from assms(1,5) have "e \<noteq> []" by (auto simp add: carrier_roundtrip_def)
  with assms show ?thesis by (simp add: encrypt_str decrypt_obj [OF assms(1)])
qed

subsection \<open>Strings written from 8-bit literals\<close>

lemma js_unit: "unat (of_nat (of_char c) :: 16 word) < 256"
proof -
  have "(of_char c :: nat) < 256" by simp
  moreover have "unat (of_nat (of_char c) :: 16 word) \<le> of_char c"
    by (simp add: unat_of_nat)
  ultimately show ?thesis by (rule le_less_trans [rotated])
qed

lemma js_unit_plain:
  "\<not> is_high (of_nat (of_char c)) \<and> \<not> is_low (of_nat (of_char c))
   \<and> (of_nat (of_char c) :: 16 word) \<noteq> 0xFEFF"
proof -
  have "unat (of_nat (of_char c) :: 16 word) < 256" by (rule js_unit)
  then show ?thesis
    by (auto simp add: is_high_def is_low_def word_le_nat_alt)
qed

lemma paired_js: "paired (js s)"
proof (induction s rule: induct_list012)
  case 1
  show ?case by (simp add: js_def)
next
  case (2 c)
  show ?case using js_unit_plain [of c] by (simp add: js_def)
next
  case (3 c d s)
  then show ?case using js_unit_plain [of c] by (simp add: js_def)
qed

lemma well_formed_js: "well_formed (js s)"
proof (cases s)
  case Nil
  then show ?thesis by (simp add: well_formed_def js_def)
next
  case (Cons c cs)
  then show ?thesis using js_unit_plain [of c] paired_js [of s]
    by (simp add: well_formed_def js_def)
qed

subsection \<open>The small platform meets the requirements\<close>

lemma strip_prefix_append: "strip_prefix t (t @ m) = Some m"
  by (induction t) simp_all



lemma toy_carrier: "carrier_roundtrip toy"
  by (auto simp add: carrier_roundtrip_def toy_def strip_prefix_append) (simp add: toy_tag_def)


lemma web_carrier: "carrier_roundtrip web"
  by (auto simp add: carrier_roundtrip_def web_def toy_def strip_prefix_append) (simp add: toy_tag_def)

lemma web_cipher: "s \<noteq> [] \<Longrightarrow> p \<noteq> [] \<Longrightarrow> is_cipher (fst (encrypt web n (JStr s) p))"
  by (simp add: encrypt_str) (simp add: web_def toy_def)

lemma web_decrypt_encrypt:
  "s \<noteq> [] \<Longrightarrow> p \<noteq> [] \<Longrightarrow>
   decrypt web (fst (encrypt web n (JStr s) p)) p = Inr (JStr (utf8_decode (utf8_encode s)))"
  by (simp add: decrypt_encrypt_any [OF web_carrier] web_cipher) (simp add: web_def)

lemma web_lone: "utf8_decode (utf8_encode [0xD800]) = [0xFFFD]"
  by (simp add: utf8_decode_def code_units_def utf8_encode_def is_high_def is_low_def encode_scalar_def)

lemma web_bom: "utf8_decode (utf8_encode [0xFEFF, 0x61]) = [0x61]"
  by (simp add: utf8_decode_def code_units_def utf8_encode_def is_high_def is_low_def encode_scalar_def)

lemma toy_succeeds: "encrypt_succeeds toy"
  by (simp add: encrypt_succeeds_def toy_def)

subsection \<open>The browser's text encoder and decoder undo each other on well-formed strings\<close>

lemma lead2: "q < 32 \<Longrightarrow> (192 + q) mod 32 = (q :: nat)"
  using mod_mult_self4 [of 32 6 q] by simp

lemma lead3: "q < 16 \<Longrightarrow> (224 + q) mod 16 = (q :: nat)"
  using mod_mult_self4 [of 16 14 q] by simp

lemma lead4: "q < 8 \<Longrightarrow> (240 + q) mod 8 = (q :: nat)"
  using mod_mult_self4 [of 8 30 q] by simp

lemma cont: "r < 64 \<Longrightarrow> (128 + r) mod 64 = (r :: nat)"
  using mod_mult_self4 [of 64 2 r] by simp

lemma points1:
  assumes "c < 128"
  shows "utf8_points cp 0 lo hi (c # rest) = c # utf8_points 0 0 0x80 0xBF rest"
  using assms by simp

lemma points2:
  assumes "2 \<le> a" "a < 32" "d < 64"
  shows "utf8_points cp 0 lo hi ((192 + a) # (128 + d) # rest) = (a * 64 + d) # utf8_points 0 0 0x80 0xBF rest"
  using assms by (simp add: lead2 cont)

lemma points3:
  assumes "a < 16" "b < 64" "d < 64" "a = 0 \<longrightarrow> 32 \<le> b" "a = 13 \<longrightarrow> b < 32"
  shows "utf8_points cp 0 lo hi ((224 + a) # (128 + b) # (128 + d) # rest) =
         ((a * 64 + b) * 64 + d) # utf8_points 0 0 0x80 0xBF rest"
  using assms by (auto simp add: lead3 cont)

lemma points4:
  assumes "a < 5" "b < 64" "e < 64" "d < 64" "a = 0 \<longrightarrow> 16 \<le> b" "a = 4 \<longrightarrow> b < 16"
  shows "utf8_points cp 0 lo hi ((240 + a) # (128 + b) # (128 + e) # (128 + d) # rest) =
         (((a * 64 + b) * 64 + e) * 64 + d) # utf8_points 0 0 0x80 0xBF rest"
  using assms by (auto simp add: lead4 cont)

lemma div64: "d < 64 \<Longrightarrow> (m * 64 + d) div 64 = (m :: nat)"
  by simp

lemma mod64: "d < 64 \<Longrightarrow> (m * 64 + d) mod 64 = (d :: nat)"
  by simp

lemma div4096: "(x :: nat) div 4096 = x div 64 div 64"
  by (simp add: div_mult2_eq [symmetric])

lemma div262144: "(x :: nat) div 262144 = x div 64 div 64 div 64"
  by (simp add: div_mult2_eq [symmetric])

lemma enc2:
  assumes "c = a * 64 + d" "2 \<le> a" "a < 32" "d < 64"
  shows "encode_scalar c = [192 + a, 128 + d]"
proof -
  have "c div 64 = a" "c mod 64 = d" unfolding assms(1) using assms(4) by (rule div64, rule mod64)
  moreover from assms have "\<not> c < 128" "c < 2048" by linarith+
  ultimately show ?thesis by (simp add: encode_scalar_def)
qed

lemma enc3:
  assumes "c = m * 64 + d" "m = a * 64 + b" "32 \<le> m" "a < 16" "b < 64" "d < 64"
  shows "encode_scalar c = [224 + a, 128 + b, 128 + d]"
proof -
  have "c div 64 = m" "c mod 64 = d" unfolding assms(1) using assms(6) by (rule div64, rule mod64)
  moreover have "m div 64 = a" "m mod 64 = b" unfolding assms(2) using assms(5) by (rule div64, rule mod64)
  moreover from assms have "\<not> c < 128" "\<not> c < 2048" "c < 65536" by linarith+
  ultimately show ?thesis by (simp add: encode_scalar_def div4096)
qed

lemma enc4:
  assumes "c = m * 64 + d" "m = n * 64 + b" "n = a * 64 + e" "16 \<le> n" "b < 64" "e < 64" "d < 64"
  shows "encode_scalar c = [240 + a, 128 + e, 128 + b, 128 + d]"
proof -
  have "c div 64 = m" "c mod 64 = d" unfolding assms(1) using assms(7) by (rule div64, rule mod64)
  moreover have "m div 64 = n" "m mod 64 = b" unfolding assms(2) using assms(5) by (rule div64, rule mod64)
  moreover have "n div 64 = a" "n mod 64 = e" unfolding assms(3) using assms(6) by (rule div64, rule mod64)
  moreover from assms have "\<not> c < 128" "\<not> c < 2048" "\<not> c < 65536" by linarith+
  ultimately show ?thesis by (simp add: encode_scalar_def div4096 div262144)
qed

lemma split64: "\<exists>m d. c = m * 64 + d \<and> d < (64 :: nat)"
  using div_mult_mod_eq [of c 64, symmetric] by (intro exI [of _ "c div 64"] exI [of _ "c mod 64"]) simp

lemma points_encode:
  assumes "scalar_value c"
  shows "utf8_points cp 0 lo hi (encode_scalar c @ rest) = c # utf8_points 0 0 0x80 0xBF rest
         \<and> (\<forall>b\<in>set (encode_scalar c). b < 256)"
proof -
  obtain m d where c: "c = m * 64 + d" and d: "d < 64" using split64 by blast
  obtain n b where m: "m = n * 64 + b" and b: "b < 64" using split64 by blast
  obtain a e where n: "n = a * 64 + e" and e: "e < 64" using split64 by blast
  consider "c < 128" | "128 \<le> c" "c < 2048" | "2048 \<le> c" "c < 65536" | "65536 \<le> c"
    by linarith
  then show ?thesis
  proof cases
    case 1
    then show ?thesis by (simp add: encode_scalar_def)
  next
    case 2
    with c d have m2: "2 \<le> m" "m < 32" by linarith+
    have "encode_scalar c = [192 + m, 128 + d]" using c m2 d by (rule enc2)
    moreover have "utf8_points cp 0 lo hi ((192 + m) # (128 + d) # rest)
        = (m * 64 + d) # utf8_points 0 0 0x80 0xBF rest"
      using m2 d by (rule points2)
    ultimately show ?thesis using c m2 d by simp
  next
    case 3
    with c d m b have n16: "n < 16" and lo: "32 \<le> m" by linarith+
    from assms 3 c d m b have hi13: "n = 13 \<longrightarrow> b < 32"
      unfolding scalar_value_def by auto
    from lo m have lo0: "n = 0 \<longrightarrow> 32 \<le> b" by simp
    have "encode_scalar c = [224 + n, 128 + b, 128 + d]" using c m lo n16 b d by (rule enc3)
    moreover have "utf8_points cp 0 lo hi ((224 + n) # (128 + b) # (128 + d) # rest)
        = ((n * 64 + b) * 64 + d) # utf8_points 0 0 0x80 0xBF rest"
      using n16 b d lo0 hi13 by (rule points3)
    ultimately show ?thesis using c m n16 b d by simp
  next
    case 4
    from assms 4 have "c < 1114112" unfolding scalar_value_def by auto
    with 4 c d m b n e have a5: "a < 5" and lo: "16 \<le> n" and hi4: "a = 4 \<longrightarrow> e < 16"
      by linarith+
    from lo n have lo0: "a = 0 \<longrightarrow> 16 \<le> e" by simp
    have "encode_scalar c = [240 + a, 128 + e, 128 + b, 128 + d]" using c m n lo b e d by (rule enc4)
    moreover have "utf8_points cp 0 lo hi ((240 + a) # (128 + e) # (128 + b) # (128 + d) # rest)
        = (((a * 64 + e) * 64 + b) * 64 + d) # utf8_points 0 0 0x80 0xBF rest"
      using a5 e b d lo0 hi4 by (rule points4)
    ultimately show ?thesis using c m n a5 b d e by simp
  qed
qed

lemma points_concat:
  assumes "\<forall>c\<in>set cs. scalar_value c"
  shows "utf8_points 0 0 0x80 0xBF (concat (map encode_scalar cs)) = cs"
  using assms
proof (induction cs)
  case Nil
  show ?case by simp
next
  case (Cons c cs)
  then have "scalar_value c" by simp
  from points_encode [OF this, of 0 "0x80" "0xBF" "concat (map encode_scalar cs)"] Cons
  show ?case by (simp del: utf8_points.simps)
qed

lemma bytes_concat:
  assumes "\<forall>c\<in>set cs. scalar_value c"
  shows "\<forall>b\<in>set (concat (map encode_scalar cs)). b < 256"
  using assms points_encode by fastforce

lemma unat_bytes:
  assumes "\<forall>b\<in>set bs. b < 256"
  shows "map (unat \<circ> (of_nat :: nat \<Rightarrow> byte)) bs = bs"
  using assms by (induction bs) (simp_all add: unat_of_nat)

lemma unat16: "unat (u :: 16 word) < 65536"
  using unsigned_less [of u, where ?'a = nat] by simp

lemma high_unat: "is_high u \<longleftrightarrow> 55296 \<le> unat u \<and> unat u \<le> 56319"
  by (simp add: is_high_def word_le_nat_alt)

lemma low_unat: "is_low u \<longleftrightarrow> 56320 \<le> unat u \<and> unat u \<le> 57343"
  by (simp add: is_low_def word_le_nat_alt)

lemma units_plain:
  assumes "\<not> is_high u" "\<not> is_low u"
  shows "scalar_value (unat u) \<and> code_units (unat u) = [u]"
  using assms unat16 [of u] by (auto simp add: high_unat low_unat scalar_value_def code_units_def)

lemma units_pair:
  assumes "is_high u" "is_low v"
  shows "scalar_value (65536 + (unat u - 55296) * 1024 + (unat v - 56320))
         \<and> code_units (65536 + (unat u - 55296) * 1024 + (unat v - 56320)) = [u, v]"
proof -
  obtain x where x: "unat u = 55296 + x" "x < 1024"
    using assms(1) by (auto simp add: high_unat intro: that [of "unat u - 55296"])
  obtain y where y: "unat v = 56320 + y" "y < 1024"
    using assms(2) by (auto simp add: low_unat intro: that [of "unat v - 56320"])
  have "(of_nat (unat u) :: 16 word) = u" "(of_nat (unat v) :: 16 word) = v" by simp_all
  then have "of_nat (55296 + x) = u" "of_nat (56320 + y) = v" unfolding x(1) y(1) .
  with x y show ?thesis by (simp add: scalar_value_def code_units_def)
qed

lemma scalars_paired:
  assumes "paired s"
  shows "(\<forall>c\<in>set (scalars s). scalar_value c) \<and> concat (map code_units (scalars s)) = s"
  using assms
proof (induction s rule: paired.induct)
  case 1
  show ?case by simp
next
  case (2 u)
  then show ?case using units_plain [of u] by simp
next
  case (3 u v us)
  show ?case
  proof (cases "is_high u")
    case True
    with 3 have "is_low v" "paired us" by simp_all
    with 3 True show ?thesis using units_pair [of u v] by simp
  next
    case False
    with 3 have "\<not> is_low u" "paired (v # us)" by simp_all
    with 3 False show ?thesis using units_plain [of u] by simp
  qed
qed

lemma utf8_roundtrip:
  assumes "well_formed s"
  shows "utf8_decode (utf8_encode s) = s"
proof -
  from assms have p: "paired s" by (simp add: well_formed_def)
  note sc = scalars_paired [OF p]
  from sc have "\<forall>c\<in>set (scalars s). scalar_value c" by simp
  note pc = points_concat [OF this] and bc = bytes_concat [OF this]
  have "map unat (utf8_encode s) = concat (map encode_scalar (scalars s))"
    using unat_bytes [OF bc] by (simp add: utf8_encode_def)
  with pc sc have "concat (map code_units (utf8_points 0 0 0x80 0xBF (map unat (utf8_encode s)))) = s"
    by simp
  with assms show ?thesis by (simp add: utf8_decode_def well_formed_def split: list.splits)
qed

lemma web_roundtrip: "platform_roundtrip web"
  using web_carrier utf8_roundtrip by (simp add: platform_roundtrip_def) (simp add: web_def)

section \<open>CryptoService: round trip and rejection\<close>

text \<open>
  C1. As stated, \<open>decrypt(encrypt(s, p), p)\<close> is \<open>s\<close> for every string. The text passes
  through \<open>TextEncoder\<close> and \<open>TextDecoder\<close>: a string that is a surrogate code unit
  without partner comes back as U+FFFD, and a string that starts with U+FEFF comes back
  without it.
\<close>

theorem roundtrip_counterexample:
  "decrypt web (fst (encrypt web 0 (JStr [0xD800]) (js ''pw1''))) (js ''pw1'') = Inr (JStr [0xFFFD])
   \<and> decrypt web (fst (encrypt web 0 (JStr [0xD800]) (js ''pw1''))) (js ''pw1'') \<noteq> Inr (JStr [0xD800])
   \<and> decrypt web (fst (encrypt web 0 (JStr [0xFEFF, 0x61]) (js ''pw1''))) (js ''pw1'') = Inr (JStr [0x61])
   \<and> decrypt web (fst (encrypt web 0 (JStr [0xFEFF, 0x61]) (js ''pw1''))) (js ''pw1'') \<noteq> Inr (JStr [0xFEFF, 0x61])"
  by (simp add: web_decrypt_encrypt js_empty web_lone web_bom)

text \<open>
  C1, amended. For every string \<open>s\<close> and every password \<open>p\<close>, \<open>decrypt(encrypt(s, p), p)\<close>
  is \<open>s\<close> as \<open>TextDecoder\<close> gives it back from \<open>TextEncoder\<close> when \<open>encrypt\<close> made a
  ciphertext object, and \<open>s\<close> itself when it did not (guard or fallback); so it is \<open>s\<close>
  whenever \<open>s\<close> is well formed (its surrogates are paired and it does not start with
  U+FEFF) or \<open>p\<close> is empty. The platform is asked that base64 and AES-GCM each undo
  themselves and that UTF-8 gives back a well-formed string.
\<close>

theorem encrypt_decrypt_roundtrip:
  assumes "platform_roundtrip W"
  shows "decrypt W (fst (encrypt W n (JStr s) p)) p =
           Inr (JStr (if is_cipher (fst (encrypt W n (JStr s) p))
                      then text_decode W (text_encode W s) else s))
         \<and> (well_formed s \<or> p = [] \<longrightarrow>
              decrypt W (fst (encrypt W n (JStr s) p)) p = Inr (JStr s))"
  using decrypt_encrypt_any [OF carrier [OF assms]] decrypt_encrypt [OF assms] by blast

theorem encrypt_decrypt_roundtrip_witness:
  "platform_roundtrip web
   \<and> well_formed (js ''secret'')
   \<and> is_cipher (fst (encrypt web 0 (JStr (js ''secret'')) (js ''pw1'')))
   \<and> decrypt web (fst (encrypt web 0 (JStr (js ''secret'')) (js ''pw1''))) (js ''pw1'')
       = Inr (JStr (js ''secret''))"
proof -
  have "decrypt web (fst (encrypt web 0 (JStr (js ''secret'')) (js ''pw1''))) (js ''pw1'')
        = Inr (JStr (js ''secret''))"
    using encrypt_decrypt_roundtrip [OF web_roundtrip, of 0 "js ''secret''" "js ''pw1''"]
      well_formed_js [of "''secret''"] by blast
  with web_roundtrip well_formed_js [of "''secret''"]
    web_cipher [of "js ''secret''" "js ''pw1''" 0]
  show ?thesis by (simp add: js_empty)
qed

text \<open>
  C2. As stated, decrypting under another password always gives \<open>null\<close>. The guards say
  otherwise: \<open>encrypt\<close> returns an empty string as it is, and \<open>decrypt\<close> returns a string
  as it is, so the result for the empty string is the empty string.
\<close>

theorem wrong_password_counterexample:
  "js ''pw1'' \<noteq> js ''pw2''
   \<and> decrypt toy (fst (encrypt toy 0 (JStr []) (js ''pw1''))) (js ''pw2'') = Inr (JStr [])
   \<and> decrypt toy (fst (encrypt toy 0 (JStr []) (js ''pw1''))) (js ''pw2'') \<noteq> Inr JNull"
  by (simp add: encrypt_def decrypt_def js_def)

text \<open>
  C2, amended. What \<open>decrypt(encrypt(s, p1), p2)\<close> is, for all strings and passwords: \<open>s\<close>
  itself when \<open>s\<close> or \<open>p1\<close> is empty; what \<open>encrypt\<close> returned when \<open>p2\<close> is empty; and
  when none of them is empty, \<open>s\<close> itself if the encryption fell back, \<open>null\<close> if the
  platform's AES-GCM decryption fails under the key derived from \<open>p2\<close> and the stored salt,
  and the decoded plaintext if that key decrypts. So the result is \<open>null\<close> exactly when a
  ciphertext was made, \<open>p2\<close> is not empty and the decryption under its key fails, which is
  up to the platform: that \<open>p1\<close> and \<open>p2\<close> differ does not decide it.
\<close>

theorem wrong_password_rejected:
  assumes "carrier_roundtrip W"
  shows "(s = [] \<or> p1 = [] \<longrightarrow>
            decrypt W (fst (encrypt W n (JStr s) p1)) p2 = Inr (JStr s))
         \<and> (p2 = [] \<longrightarrow>
            decrypt W (fst (encrypt W n (JStr s) p1)) p2 = Inr (fst (encrypt W n (JStr s) p1)))
         \<and> (s \<noteq> [] \<and> p1 \<noteq> [] \<and> p2 \<noteq> [] \<longrightarrow>
            decrypt W (fst (encrypt W n (JStr s) p1)) p2 =
              (case aes_gcm_encrypt W (deriveKey W p1 (getRandomValues W n 16))
                      (getRandomValues W (Suc n) 12) (text_encode W s) of
                 None \<Rightarrow> Inr (JStr s)
               | Some e \<Rightarrow>
                   (case aes_gcm_decrypt W (deriveKey W p2 (getRandomValues W n 16))
                           (getRandomValues W (Suc n) 12) e of
                      None \<Rightarrow> Inr JNull
                    | Some m \<Rightarrow> Inr (JStr (text_decode W m)))))"
proof (intro conjI impI)
  assume "s = [] \<or> p1 = []"
  then show "decrypt W (fst (encrypt W n (JStr s) p1)) p2 = Inr (JStr s)"
    by (auto simp add: encrypt_str decrypt_str)
next
  assume "p2 = []"
  then show "decrypt W (fst (encrypt W n (JStr s) p1)) p2 = Inr (fst (encrypt W n (JStr s) p1))"
    by (simp add: encrypt_str decrypt_def split: option.splits)
next
  let ?enc = "aes_gcm_encrypt W (deriveKey W p1 (getRandomValues W n 16))
                (getRandomValues W (Suc n) 12) (text_encode W s)"
  assume ne: "s \<noteq> [] \<and> p1 \<noteq> [] \<and> p2 \<noteq> []"
  show "decrypt W (fst (encrypt W n (JStr s) p1)) p2 =
          (case ?enc of
             None \<Rightarrow> Inr (JStr s)
           | Some e \<Rightarrow>
               (case aes_gcm_decrypt W (deriveKey W p2 (getRandomValues W n 16))
                       (getRandomValues W (Suc n) 12) e of
                  None \<Rightarrow> Inr JNull
                | Some m \<Rightarrow> Inr (JStr (text_decode W m))))"
  proof (cases ?enc)
    case None
    with ne show ?thesis by (simp add: encrypt_str decrypt_str)
  next
    case (Some e)
    with ne decrypt_encrypt_other [OF assms, of s p1 p2 n e] show ?thesis by simp
  qed
qed

lemma toy_other_key:
  "aes_gcm_encrypt toy (deriveKey toy (js ''pw1'') (getRandomValues toy 0 16))
      (getRandomValues toy (Suc 0) 12) (text_encode toy (js ''secret''))
     = Some (toy_tag (toy_encode (js ''pw1'') @ replicate 16 0) @ toy_encode (js ''secret''))
   \<and> aes_gcm_decrypt toy (deriveKey toy (js ''pw2'') (getRandomValues toy 0 16))
      (getRandomValues toy (Suc 0) 12)
      (toy_tag (toy_encode (js ''pw1'') @ replicate 16 0) @ toy_encode (js ''secret'')) = None"
  by code_simp

theorem wrong_password_rejected_witness:
  "carrier_roundtrip toy
   \<and> js ''secret'' \<noteq> [] \<and> js ''pw1'' \<noteq> [] \<and> js ''pw2'' \<noteq> []
   \<and> decrypt toy (fst (encrypt toy 0 (JStr (js ''secret'')) (js ''pw1''))) (js ''pw2'') = Inr JNull"
  using wrong_password_rejected [OF toy_carrier, of "js ''secret''" "js ''pw1''" 0 "js ''pw2''"]
    toy_carrier toy_other_key
  by (simp add: js_empty)

section \<open>What lies outside the vault\<close>



lemma same_vault_fields:
  assumes "same_vault st st'"
  shows "prompts st' = prompts st"
    "folders st' = folders st"
    "db_prompts st' = db_prompts st"
    "db_folders st' = db_folders st"
    "folderToEditId st' = folderToEditId st"
    "selectedPromptIds st' = selectedPromptIds st"
    "isSelectMode st' = isSelectMode st"
    "sessionPasswords st' = sessionPasswords st"
    "currentPromptId st' = currentPromptId st"
    "currentTags st' = currentTags st"
    "isCreatingNew st' = isCreatingNew st"
    "newPromptLockInfo st' = newPromptLockInfo st"
proof -
  from assms have eq: "st' = st\<lparr>alerts := alerts st', passwordDialogs := passwordDialogs st',
      draws := draws st', genericModalShown := genericModalShown st', clock := clock st'\<rparr>"
    by (simp add: same_vault_def)
  show "prompts st' = prompts st" by (subst eq) simp
  show "folders st' = folders st" by (subst eq) simp
  show "db_prompts st' = db_prompts st" by (subst eq) simp
  show "db_folders st' = db_folders st" by (subst eq) simp
  show "folderToEditId st' = folderToEditId st" by (subst eq) simp
  show "selectedPromptIds st' = selectedPromptIds st" by (subst eq) simp
  show "isSelectMode st' = isSelectMode st" by (subst eq) simp
  show "sessionPasswords st' = sessionPasswords st" by (subst eq) simp
  show "currentPromptId st' = currentPromptId st" by (subst eq) simp
  show "currentTags st' = currentTags st" by (subst eq) simp
  show "isCreatingNew st' = isCreatingNew st" by (subst eq) simp
  show "newPromptLockInfo st' = newPromptLockInfo st" by (subst eq) simp
qed

lemma elapse_vault: "same_vault st (elapse W st)"
  by (simp add: same_vault_def elapse_def)



lemma after_password_vault: "same_vault st (after_password st)"
  by (simp add: same_vault_def after_password_def)






lemma await_bulkPut_fields:
  "prompts (await_bulkPut W items st) = prompts st"
  "folders (await_bulkPut W items st) = folders st"
  "db_prompts (await_bulkPut W items st) = bulkPut (db_prompts st) items"
  "db_folders (await_bulkPut W items st) = db_folders st"
  "folderToEditId (await_bulkPut W items st) = folderToEditId st"
  "alerts (await_bulkPut W items st) = alerts st"
  "draws (await_bulkPut W items st) = draws st"
  by (simp_all add: await_bulkPut_def elapse_def)

lemma await_put_folder_fields:
  "prompts (await_put_folder W f st) = prompts st"
  "folders (await_put_folder W f st) = folders st"
  "db_prompts (await_put_folder W f st) = db_prompts st"
  "db_folders (await_put_folder W f st) = (db_folders st)(folder_id f \<mapsto> f)"
  "folderToEditId (await_put_folder W f st) = folderToEditId st"
  "alerts (await_put_folder W f st) = alerts st"
  "draws (await_put_folder W f st) = draws st"
  by (simp_all add: await_put_folder_def elapse_def)


section \<open>Failures of the primitives\<close>



lemma encrypt_fallback:
  "aes_gcm_encrypt W (deriveKey W pw (getRandomValues W n 16)) (getRandomValues W (Suc n) 12)
      (text_encode W (ToString v)) = None \<Longrightarrow> fst (encrypt W n v pw) = v"
  by (simp add: encrypt_def Let_def)



section \<open>Locking and unlocking a folder\<close>

lemma String_of_1: "String_of 1 = ''1''" "String_of (Suc 0) = ''1''"
  by (simp_all add: String_of.simps digit_char_def)

lemma find_update_first_same:
  "find P xs = Some x \<Longrightarrow> P y \<Longrightarrow> find P (update_first P (\<lambda>_. y) xs) = Some y"
  by (induction xs) (auto split: if_splits)

lemma find_update_first_other:
  "(\<And>x. P x \<Longrightarrow> \<not> Q x) \<Longrightarrow> \<not> Q y \<Longrightarrow> find Q (update_first P (\<lambda>_. y) xs) = find Q xs"
  by (induction xs) auto

lemma find_folder_Some_id: "find_folder fs i = Some f \<Longrightarrow> i = Some (folder_id f)"
  by (auto simp add: find_folder_def find_Some_iff split: option.splits)


lemma find_folder_update_same:
  assumes "find_folder fs i = Some F" and "folder_id G = folder_id F"
  shows "find_folder (update_first (\<lambda>f. folder_id f = folder_id F) (\<lambda>f. G) fs) i = Some G"
proof -
  from assms(1) have i: "i = Some (folder_id F)" by (rule find_folder_Some_id)
  with assms show ?thesis by (simp add: find_folder_def find_update_first_same)
qed

lemma find_folder_update_other:
  assumes "i \<noteq> Some (folder_id F)" and "folder_id G = folder_id F"
  shows "find_folder (update_first (\<lambda>f. folder_id f = folder_id F) (\<lambda>f. G) fs) i = find_folder fs i"
proof (cases i)
  case None
  then show ?thesis by (simp add: find_folder_def)
next
  case (Some k)
  with assms have "k \<noteq> folder_id F" by simp
  then have "find (\<lambda>f. folder_id f = k) (update_first (\<lambda>f. folder_id f = folder_id F) (\<lambda>f. G) fs)
      = find (\<lambda>f. folder_id f = k) fs"
    using assms(2) by (intro find_update_first_other) auto
  with Some show ?thesis by (simp add: find_folder_def)
qed

lemma list_all2_set2: "list_all2 R xs ys \<Longrightarrow> y \<in> set ys \<Longrightarrow> \<exists>x\<in>set xs. R x y"
  by (induction rule: list_all2_induct) auto

text \<open>What the lock loop leaves in the prompts, whatever the state it starts from.\<close>

lemma lock_prompts_all2:
  "list_all2 (\<lambda>p q. if folderId p = Some fid
      then \<exists>n m. q = p\<lparr>body := fst (encrypt W n (body p) pw), prompt_notes := fst (encrypt W m (prompt_notes p) pw)\<rparr>
      else q = p) ps (fst (lock_prompts W fid pw ps st))"
proof (induction ps arbitrary: st)
  case Nil
  then show ?case by simp
next
  case (Cons p ps)
  show ?case
  proof (cases "folderId p = Some fid")
    case False
    with Cons [of st] show ?thesis by (simp add: case_prod_beta)
  next
    case True
    let ?st1 = "after_encrypt W (body p) pw st"
    let ?st2 = "after_encrypt W (prompt_notes p) pw ?st1"
    have "\<exists>n m. p\<lparr>body := fst (encrypt W (draws st) (body p) pw),
                   prompt_notes := fst (encrypt W (draws ?st1) (prompt_notes p) pw)\<rparr>
        = p\<lparr>body := fst (encrypt W n (body p) pw), prompt_notes := fst (encrypt W m (prompt_notes p) pw)\<rparr>"
      by blast
    with Cons [of ?st2] True show ?thesis by (simp add: case_prod_beta Let_def)
  qed
qed


text \<open>The three ways through \<open>handleToggleFolderLock\<close> when the dialog is displayed.\<close>

lemma toggle_lock_eq:
  assumes "find_folder (folders st) (folderToEditId st) = Some F" "\<not> folder_isLocked F" "pw \<noteq> []"
    and "\<not> genericModalShown st"
  shows "handleToggleFolderLock W st (Some pw) =
    Returned (await_put_folder W
       (F\<lparr>folder_isLocked := True,
          folder_passwordCheck := fst (encrypt W (draws st) (JStr (js (String_of (folder_id F)))) pw)\<rparr>)
       (await_bulkPut W (filter (\<lambda>p. folderId p = Some (folder_id F))
            (fst (lock_prompts W (folder_id F) pw (prompts st)
               (after_encrypt W (JStr (js (String_of (folder_id F)))) pw (after_password st)))))
          ((snd (lock_prompts W (folder_id F) pw (prompts st)
               (after_encrypt W (JStr (js (String_of (folder_id F)))) pw (after_password st))))
            \<lparr>prompts := fst (lock_prompts W (folder_id F) pw (prompts st)
               (after_encrypt W (JStr (js (String_of (folder_id F)))) pw (after_password st))),
             folders := update_first (\<lambda>f. folder_id f = folder_id F)
               (\<lambda>f. F\<lparr>folder_isLocked := True,
                  folder_passwordCheck := fst (encrypt W (draws st) (JStr (js (String_of (folder_id F)))) pw)\<rparr>)
               (folders st)\<rparr>)))"
  using assms by (simp add: handleToggleFolderLock_def password_result_def Let_def case_prod_beta)










section \<open>The representation of locked content\<close>

lemma encrypt_shape:
  assumes "encrypt_succeeds W" and "is_plain v \<or> is_cipher v"
  shows "is_cipher (fst (encrypt W n v pw)) \<or> fst (encrypt W n v pw) = JStr [] \<or> (pw = [] \<and> fst (encrypt W n v pw) = v)"
proof (cases "\<not> truthy v \<or> pw = []")
  case True
  with assms(2) show ?thesis by (cases v) (auto simp add: encrypt_def)
next
  case False
  let ?r = "aes_gcm_encrypt W (deriveKey W pw (getRandomValues W n 16))
              (getRandomValues W (Suc n) 12) (text_encode W (ToString v))"
  from assms(1) have "?r \<noteq> None" by (simp add: encrypt_succeeds_def)
  then obtain c where "?r = Some c" by auto
  with False show ?thesis by (simp add: encrypt_def Let_def)
qed

lemma representation_fields:
  "representation fs p \<Longrightarrow> (is_plain (body p) \<or> is_cipher (body p)) \<and> (is_plain (prompt_notes p) \<or> is_cipher (prompt_notes p))"
  by (auto simp add: representation_def split: if_splits)

text \<open>
  C5, amended. Locking a folder keeps this representation of every prompt: body and notes
  are strings when neither the prompt nor its folder is locked, and each is a ciphertext
  object or the empty string when the prompt or its folder is locked. The platform is
  asked that its AES-GCM encryption does not fail, since \<open>encrypt\<close> then falls back to the
  plain text.
\<close>

theorem lock_keeps_representation:
  assumes ok: "encrypt_succeeds W"
    and F: "find_folder (folders st) (folderToEditId st) = Some F"
    and unl: "\<not> folder_isLocked F"
    and inv: "\<forall>p\<in>set (prompts st). representation (folders st) p"
  shows "\<forall>q\<in>set (prompts (state_of (handleToggleFolderLock W st answer))).
           representation (folders (state_of (handleToggleFolderLock W st answer))) q"
proof (cases "genericModalShown st \<or> answer = None \<or> answer = Some []")
  case True
  with F unl have "handleToggleFolderLock W st answer = Returned (after_password st)"
    by (auto simp add: handleToggleFolderLock_def password_result_def)
  with inv same_vault_fields [OF after_password_vault [of st]] show ?thesis by simp
next
  case False
  then obtain pw where pw: "answer = Some pw" "pw \<noteq> []" and shown: "\<not> genericModalShown st"
    by auto
  define idtext where "idtext = JStr (js (String_of (folder_id F)))"
  define F1 where "F1 = F\<lparr>folder_isLocked := True,
      folder_passwordCheck := fst (encrypt W (draws st) idtext pw)\<rparr>"
  define fs1 where "fs1 = update_first (\<lambda>f. folder_id f = folder_id F) (\<lambda>f. F1) (folders st)"
  define ps1 where "ps1 = fst (lock_prompts W (folder_id F) pw (prompts st)
      (after_encrypt W idtext pw (after_password st)))"
  have F1sel: "folder_id F1 = folder_id F" "folder_isLocked F1" by (simp_all add: F1_def)
  have res: "prompts (state_of (handleToggleFolderLock W st answer)) = ps1"
    "folders (state_of (handleToggleFolderLock W st answer)) = fs1"
    using toggle_lock_eq [OF F unl pw(2) shown, of W] pw(1)
    by (simp_all add: ps1_def fs1_def F1_def idtext_def await_put_folder_fields await_bulkPut_fields)
  have rel: "list_all2 (\<lambda>p q. if folderId p = Some (folder_id F)
                        then \<exists>n m. q = p\<lparr>body := fst (encrypt W n (body p) pw),
                                         prompt_notes := fst (encrypt W m (prompt_notes p) pw)\<rparr>
                        else q = p) (prompts st) ps1"
    unfolding ps1_def by (rule lock_prompts_all2)
  have "representation fs1 q" if qin: "q \<in> set ps1" for q
  proof -
    obtain p where p: "p \<in> set (prompts st)"
      and pq: "if folderId p = Some (folder_id F)
               then \<exists>n m. q = p\<lparr>body := fst (encrypt W n (body p) pw),
                                prompt_notes := fst (encrypt W m (prompt_notes p) pw)\<rparr>
               else q = p"
      using list_all2_set2 [OF rel qin] by auto
    from inv p have rp: "representation (folders st) p" by simp
    show ?thesis
    proof (cases "folderId p = Some (folder_id F)")
      case True
      with pq obtain n m where q: "q = p\<lparr>body := fst (encrypt W n (body p) pw),
                                prompt_notes := fst (encrypt W m (prompt_notes p) pw)\<rparr>" by auto
      from F have "folderToEditId st = Some (folder_id F)" by (rule find_folder_Some_id)
      with F True have "find_folder (folders st) (folderId q) = Some F" by (simp add: q)
      then have "find_folder fs1 (folderId q) = Some F1"
        unfolding fs1_def by (rule find_folder_update_same) (simp add: F1sel)
      then have lk: "isLocked fs1 q" by (simp add: isLocked_def isLockedByFolder_def F1sel)
      from representation_fields [OF rp]
      have "is_cipher (body q) \<or> body q = JStr []" "is_cipher (prompt_notes q) \<or> prompt_notes q = JStr []"
        using encrypt_shape [OF ok, of "body p" n pw] encrypt_shape [OF ok, of "prompt_notes p" m pw] pw(2)
        by (auto simp add: q)
      with lk show ?thesis by (simp add: representation_def)
    next
      case False
      with pq have q: "q = p" by simp
      from False have "find_folder fs1 (folderId p) = find_folder (folders st) (folderId p)"
        unfolding fs1_def by (rule find_folder_update_other) (simp add: F1sel)
      then have "isLocked fs1 p = isLocked (folders st) p"
        by (simp add: isLocked_def isLockedByFolder_def)
      with rp q show ?thesis by (simp add: representation_def)
    qed
  qed
  with res show ?thesis by simp
qed

text \<open>
  C5. As stated, a locked prompt's body and notes are always ciphertext objects. Locking
  a folder leaves an empty field as the empty string: \<open>encrypt\<close> returns a falsy text as
  it is. Here the prompt of the small vault has empty notes.
\<close>

theorem representation_counterexample:
  "list_all (spec_representation (folders ex_state)) (prompts ex_state)
  \<and> returned (handleToggleFolderLock toy ex_state (Some (js ''pw1'')))
  \<and> isLocked (folders (state_of (handleToggleFolderLock toy ex_state (Some (js ''pw1'')))))
        (hd (prompts (state_of (handleToggleFolderLock toy ex_state (Some (js ''pw1''))))))
  \<and> prompt_notes (hd (prompts (state_of (handleToggleFolderLock toy ex_state (Some (js ''pw1'')))))) = JStr []
  \<and> \<not> list_all (spec_representation (folders (state_of (handleToggleFolderLock toy ex_state (Some (js ''pw1''))))))
            (prompts (state_of (handleToggleFolderLock toy ex_state (Some (js ''pw1'')))))"
  by code_simp

lemma ex_lock_locked:
  "isLocked (folders (state_of (handleToggleFolderLock toy ex_state (Some (js ''pw1'')))))
        (hd (prompts (state_of (handleToggleFolderLock toy ex_state (Some (js ''pw1''))))))"
  by code_simp

theorem lock_keeps_representation_witness:
  "encrypt_succeeds toy
   \<and> find_folder (folders ex_state) (folderToEditId ex_state) = Some ex_folder
   \<and> \<not> folder_isLocked ex_folder
   \<and> list_all (representation (folders ex_state)) (prompts ex_state)
   \<and> list_all (representation (folders (state_of (handleToggleFolderLock toy ex_state (Some (js ''pw1''))))))
        (prompts (state_of (handleToggleFolderLock toy ex_state (Some (js ''pw1'')))))
   \<and> isLocked (folders (state_of (handleToggleFolderLock toy ex_state (Some (js ''pw1'')))))
        (hd (prompts (state_of (handleToggleFolderLock toy ex_state (Some (js ''pw1''))))))"
proof -
  have h1: "find_folder (folders ex_state) (folderToEditId ex_state) = Some ex_folder"
    by (simp add: ex_state_def ex_folder_def find_folder_def)
  have h2: "\<not> folder_isLocked ex_folder" by (simp add: ex_folder_def)
  have h3: "\<forall>p\<in>set (prompts ex_state). representation (folders ex_state) p"
    by (simp add: ex_state_def ex_folder_def ex_prompt_def representation_def isLocked_def
        isLockedByFolder_def find_folder_def)
  from lock_keeps_representation [OF toy_succeeds h1 h2 h3, of "Some (js ''pw1'')"] h1 h2 h3
    ex_lock_locked toy_succeeds
  show ?thesis by (simp add: list_all_iff)
qed

section \<open>Moving prompts\<close>

text \<open>
  C10. When the destination folder is locked, its password is checked before the loop
  over the selected prompts: if \<open>passwordCheck\<close> does not decrypt to the folder's id under
  the password typed, the handler returns after the alert (or stops at the TypeError of a
  \<open>null\<close> \<open>passwordCheck\<close>) with every prompt and folder, both stores and the random
  draws as they were.
\<close>

theorem destination_checked_first:
  assumes "find_folder (folders st) newFolderId = Some destFolder"
    and "folder_isLocked destFolder"
    and "decrypt W (folder_passwordCheck destFolder) movePasswordInput
           \<noteq> Inr (JStr (js (String_of (folder_id destFolder))))"
  shows "(handleConfirmMove W st newFolderId movePasswordInput answers
            = Returned (alert ''Incorrect password for the destination folder.''
                 (after_decrypt W (folder_passwordCheck destFolder) movePasswordInput st))
          \<or> handleConfirmMove W st newFolderId movePasswordInput answers = Threw TypeError st)
       \<and> prompts (state_of (handleConfirmMove W st newFolderId movePasswordInput answers)) = prompts st
       \<and> folders (state_of (handleConfirmMove W st newFolderId movePasswordInput answers)) = folders st
       \<and> db_prompts (state_of (handleConfirmMove W st newFolderId movePasswordInput answers)) = db_prompts st
       \<and> db_folders (state_of (handleConfirmMove W st newFolderId movePasswordInput answers)) = db_folders st
       \<and> draws (state_of (handleConfirmMove W st newFolderId movePasswordInput answers)) = draws st"
proof (cases "decrypt W (folder_passwordCheck destFolder) movePasswordInput")
  case (Inl e)
  then have "handleConfirmMove W st newFolderId movePasswordInput answers = Threw TypeError st"
    using assms(1,2) by (cases e) (simp add: handleConfirmMove_def)
  then show ?thesis by simp
next
  case (Inr v)
  with assms have "handleConfirmMove W st newFolderId movePasswordInput answers
      = Returned (alert ''Incorrect password for the destination folder.''
          (after_decrypt W (folder_passwordCheck destFolder) movePasswordInput st))"
    by (simp add: handleConfirmMove_def)
  then show ?thesis by (simp add: alert_def after_decrypt_def elapse_def)
qed

lemma ex_move_bad:
  "decrypt toy (folder_passwordCheck (folders ex_move_state ! 2)) (js ''bad'') = Inr JNull"
  by code_simp

theorem destination_checked_first_witness:
  "find_folder (folders ex_move_state) (Some 9) = Some (folders ex_move_state ! 2)
   \<and> folder_isLocked (folders ex_move_state ! 2)
   \<and> decrypt toy (folder_passwordCheck (folders ex_move_state ! 2)) (js ''bad'') = Inr JNull
   \<and> handleConfirmMove toy ex_move_state (Some 9) (js ''bad'') [Some (js ''pw1''), Some (js ''pw1'')]
        = Returned (alert ''Incorrect password for the destination folder.''
            (after_decrypt toy (folder_passwordCheck (folders ex_move_state ! 2)) (js ''bad'')
               ex_move_state))
   \<and> prompts (state_of (handleConfirmMove toy ex_move_state (Some 9) (js ''bad'')
        [Some (js ''pw1''), Some (js ''pw1'')])) = prompts ex_move_state
   \<and> db_prompts (state_of (handleConfirmMove toy ex_move_state (Some 9) (js ''bad'')
        [Some (js ''pw1''), Some (js ''pw1'')])) = db_prompts ex_move_state"
proof -
  have h1: "find_folder (folders ex_move_state) (Some 9) = Some (folders ex_move_state ! 2)"
    by (simp add: ex_move_state_def ex_state_def ex_folder_def find_folder_def)
  have h2: "folder_isLocked (folders ex_move_state ! 2)"
    by (simp add: ex_move_state_def ex_state_def ex_folder_def)
  note dec = ex_move_bad
  then have h3: "decrypt toy (folder_passwordCheck (folders ex_move_state ! 2)) (js ''bad'')
      \<noteq> Inr (JStr (js (String_of (folder_id (folders ex_move_state ! 2)))))"
    by simp
  have "handleConfirmMove toy ex_move_state (Some 9) (js ''bad'') [Some (js ''pw1''), Some (js ''pw1'')]
      \<noteq> Threw TypeError ex_move_state"
    using h1 h2 dec by (simp add: handleConfirmMove_def)
  with destination_checked_first [OF h1 h2 h3, of "[Some (js ''pw1''), Some (js ''pw1'')]"] h1 h2 dec
  show ?thesis by blast
qed

section \<open>The folder's lock comes first\<close>

lemma find_distinct:
  "distinct (map folder_id fs) \<Longrightarrow> f \<in> set fs \<Longrightarrow> find (\<lambda>g. folder_id g = folder_id f) fs = Some f"
  by (induction fs) (auto simp add: image_iff)

text \<open>
  C4. Let prompt \<open>q\<close> be in folder \<open>f\<close>, the folder ids being distinct, and let \<open>f\<close> be
  locked. Whatever \<open>q\<close>'s own \<open>isLocked\<close> flag is: the list shows \<open>q\<close> as locked; opening
  \<open>q\<close> asks for the folder's password, checks it against the folder's \<open>passwordCheck\<close>
  and caches it under the folder's key; the details view looks the password up under the
  folder's key and disables the prompt's own lock switch; quick copy checks against the
  folder's id and \<open>passwordCheck\<close>; dragging is prevented; and a move asks for the
  folder's password.
\<close>

theorem folder_lock_dominates:
  assumes "f \<in> set fs" and "distinct (map folder_id fs)"
    and "folderId q = Some (folder_id f)" and "folder_isLocked f"
  shows "isLocked fs (q\<lparr>prompt_isLocked := own\<rparr>)
    \<and> click_lock fs (q\<lparr>prompt_isLocked := own\<rparr>)
         = Some (FolderItem f, ''folder-'' @ String_of (folder_id f))
    \<and> key (details_lock fs (q\<lparr>prompt_isLocked := own\<rparr>)) = ''folder-'' @ String_of (folder_id f)
    \<and> details_isLocked (details_lock fs (q\<lparr>prompt_isLocked := own\<rparr>))
    \<and> switch_disabled (details_lock fs (q\<lparr>prompt_isLocked := own\<rparr>))
    \<and> quick_copy_check fs (q\<lparr>prompt_isLocked := own\<rparr>)
         = Some (String_of (folder_id f), folder_passwordCheck f)
    \<and> drag_prevented fs (q\<lparr>prompt_isLocked := own\<rparr>)
    \<and> source_check fs (q\<lparr>prompt_isLocked := own\<rparr>)
         = Some (folder_passwordCheck f, String_of (folder_id f),
                 ''Skipping prompt: incorrect password for source folder.'')"
proof -
  from assms(1,2) have "find (\<lambda>g. folder_id g = folder_id f) fs = Some f"
    by (rule find_distinct [rotated])
  with assms(3) have ff: "find_folder fs (folderId (q\<lparr>prompt_isLocked := own\<rparr>)) = Some f"
    by (simp add: find_folder_def)
  with assms(4) show ?thesis
    by (simp add: isLocked_def isLockedByFolder_def click_lock_def details_lock_def
        quick_copy_check_def drag_prevented_def source_check_def)
qed

theorem folder_lock_dominates_witness:
  "hd (folders ex_locked_state) \<in> set (folders ex_locked_state)
   \<and> distinct (map folder_id (folders ex_locked_state))
   \<and> folderId ex_prompt = Some (folder_id (hd (folders ex_locked_state)))
   \<and> folder_isLocked (hd (folders ex_locked_state))
   \<and> click_lock (folders ex_locked_state) (ex_prompt\<lparr>prompt_isLocked := True\<rparr>)
        = Some (FolderItem (hd (folders ex_locked_state)), ''folder-1'')
   \<and> click_lock (folders ex_locked_state) (ex_prompt\<lparr>prompt_isLocked := False\<rparr>)
        = Some (FolderItem (hd (folders ex_locked_state)), ''folder-1'')
   \<and> switch_disabled (details_lock (folders ex_locked_state) (ex_prompt\<lparr>prompt_isLocked := True\<rparr>))
   \<and> drag_prevented (folders ex_locked_state) (ex_prompt\<lparr>prompt_isLocked := False\<rparr>)
   \<and> click_lock (folders ex_state) (ex_prompt\<lparr>prompt_isLocked := True\<rparr>)
        = Some (PromptItem (ex_prompt\<lparr>prompt_isLocked := True\<rparr>), ''prompt-2'')"
proof -
  let ?fs = "folders ex_locked_state"
  have h1: "hd ?fs \<in> set ?fs" by (simp add: ex_locked_state_def)
  have h2: "distinct (map folder_id ?fs)" by (simp add: ex_locked_state_def)
  have h3: "folderId ex_prompt = Some (folder_id (hd ?fs))"
    by (simp add: ex_locked_state_def ex_prompt_def ex_folder_def)
  have h4: "folder_isLocked (hd ?fs)" by (simp add: ex_locked_state_def)
  have id1: "String_of (folder_id (hd ?fs)) = ''1''"
    by (simp add: ex_locked_state_def ex_folder_def String_of_1)
  have own: "click_lock (folders ex_state) (ex_prompt\<lparr>prompt_isLocked := True\<rparr>)
        = Some (PromptItem (ex_prompt\<lparr>prompt_isLocked := True\<rparr>), ''prompt-2'')"
    by (simp add: click_lock_def ex_state_def ex_folder_def ex_prompt_def find_folder_def
        String_of.simps digit_char_def)
  from folder_lock_dominates [OF h1 h2 h3 h4, of True] folder_lock_dominates [OF h1 h2 h3 h4, of False]
    h1 h2 h3 h4 own
  show ?thesis unfolding id1 by simp
qed

section \<open>Saving a prompt\<close>

text \<open>
  C9. Saving an existing prompt encrypts under the password the session cache holds for
  \<open>folder-<folderId>\<close>, whether or not that folder is locked, and only then under the one
  for \<open>prompt-<id>\<close>. In the vault below nothing is locked and the prompt's owner is the
  prompt itself, for which no password is cached; the cache still holds the password of
  the folder from the time it was locked. The save stores the body as ciphertext under
  that password, in a prompt that is not locked.
\<close>

theorem save_uses_stale_folder_password:
  "\<not> folder_isLocked (hd (folders ex_stale_state))
   \<and> \<not> isLocked (folders ex_stale_state) (hd (prompts ex_stale_state))
   \<and> find_folder (folders ex_stale_state) (Some 1) = Some (hd (folders ex_stale_state))
   \<and> sessionPasswords ex_stale_state (prompt_key 2) = None
   \<and> key (details_lock (folders ex_stale_state) (hd (prompts ex_stale_state))) = prompt_key 2
   \<and> body (hd (prompts ex_stale_state)) = JStr (js ''secret'')
   \<and> returned (handleSavePrompt toy ex_stale_state (js ''P'') (js ''new text'') [] (Some 1) 5)
   \<and> is_cipher (body (hd (prompts (state_of (handleSavePrompt toy ex_stale_state (js ''P'') (js ''new text'') [] (Some 1) 5)))))
   \<and> \<not> isLocked (folders (state_of (handleSavePrompt toy ex_stale_state (js ''P'') (js ''new text'') [] (Some 1) 5)))
          (hd (prompts (state_of (handleSavePrompt toy ex_stale_state (js ''P'') (js ''new text'') [] (Some 1) 5))))
   \<and> decrypt toy (body (hd (prompts (state_of (handleSavePrompt toy ex_stale_state (js ''P'')
          (js ''new text'') [] (Some 1) 5))))) (js ''pw1'') = Inr (JStr (js ''new text''))"
  by code_simp

end
